theory Spec2Isabelle
  imports Complex_Main
begin

section \<open>JavaScript strings and numbers\<close>

text \<open>
  A JavaScript string is modelled as a \<^typ>\<open>string\<close>, read as the bytes of the UTF-8 form
  of its text (a lone surrogate, which has no UTF-8 form, as the three bytes of its
  generalised form). The ASCII separators used by the library (tab, space, dot, hyphen)
  are single bytes that occur nowhere inside a multi-byte sequence, so splitting and
  searching the bytes agrees with splitting and searching the text.

  Under this reading \<open>TextEncoder.encode\<close> and \<open>TextDecoder.decode\<close> are not the identity:
  the encoder replaces a lone surrogate by U+FFFD, the decoder removes a leading byte
  order mark and replaces ill-formed input by U+FFFD. Both are parameters of the model,
  fields of the environment of the module.
\<close>

type_synonym bytes = "char list"

abbreviation TAB :: char where
  "TAB \<equiv> CHR 0x09"

definition startsWith :: "string \<Rightarrow> string \<Rightarrow> bool" where
  "startsWith s p = (take (length p) s = p)"

definition endsWith :: "string \<Rightarrow> string \<Rightarrow> bool" where
  "endsWith s p = (length p \<le> length s \<and> drop (length s - length p) s = p)"

text \<open>\<open>s.includes(p)\<close>: \<open>p\<close> occurs in \<open>s\<close> as a contiguous substring.\<close>

fun includes_str :: "string \<Rightarrow> string \<Rightarrow> bool" where
  "includes_str [] p = (p = [])"
| "includes_str (c # cs) p = (startsWith (c # cs) p \<or> includes_str cs p)"

text \<open>\<open>s.replace(p, r)\<close> with a string pattern: only the first occurrence is replaced.\<close>

fun replace :: "string \<Rightarrow> string \<Rightarrow> string \<Rightarrow> string" where
  "replace [] p r = (if p = [] then r else [])"
| "replace (c # cs) p r =
     (if startsWith (c # cs) p then r @ drop (length p) (c # cs)
      else c # replace cs p r)"

text \<open>
  \<open>s.split(c)\<close> for a one-character separator. The result is never empty, so the first
  branch of the \<open>case\<close> is never taken.
\<close>

fun split_on :: "char \<Rightarrow> string \<Rightarrow> string list" where
  "split_on c [] = [[]]"
| "split_on c (x # xs) =
     (if x = c then [] # split_on c xs
      else (case split_on c xs of
              [] \<Rightarrow> [[x]]
            | part # parts \<Rightarrow> (x # part) # parts))"

text \<open>\<open>parts.join(sep)\<close>.\<close>

fun join :: "string list \<Rightarrow> string \<Rightarrow> string" where
  "join [] sep = []"
| "join [x] sep = x"
| "join (x # y # ys) sep = x @ sep @ join (y # ys) sep"

text \<open>
  The \<open>ttl\<close> of a record is a JavaScript \<open>number\<close>. The type of numbers is left open, as
  the type parameter \<open>'n\<close> of a record; the two conversions the library applies to a
  number, \<open>String\<close> (inside \<open>join\<close>) and \<open>Number\<close>, are taken from the environment.
\<close>

section \<open>Records, errors and the module's environment\<close>

record 'n DnsRecord =
  name :: string
  type :: string
  ttl :: 'n
  data :: string

datatype error =
    InvalidDomain string
  | InvalidResolver string
  | InvalidRecord string
  | ResolverFailure string

text \<open>
  A resolver is an async function of a name and a record type; the value is how its promise
  settles: \<open>Inr\<close> the records it resolves with, \<open>Inl\<close> the error it rejects with.
\<close>

type_synonym 'n resolver_fn = "string \<Rightarrow> string \<Rightarrow> error + 'n DnsRecord list"

text \<open>
  What the module takes from outside: the imported list \<open>subdomainsRecords\<close> (its file is
  not part of the sources), punycode's \<open>toASCII\<close>, the regular-expression test \<open>isDomain\<close>,
  the table \<open>dnsResolvers\<close> of built-in resolvers, whose entries call the network, and
  the platform's functions: \<open>numberToString\<close> is \<open>String\<close> on a number, \<open>toNumber\<close> is
  \<open>Number\<close> on a string, \<open>encode\<close> is \<open>TextEncoder.encode\<close> and \<open>decode\<close> is
  \<open>TextDecoder.decode\<close>.
\<close>

record 'n module_env =
  subdomainsRecords :: "string list"
  toASCII :: "string \<Rightarrow> string"
  isDomain :: "string \<Rightarrow> bool"
  dnsResolvers :: "string \<Rightarrow> 'n resolver_fn option"
  numberToString :: "'n \<Rightarrow> string"
  toNumber :: "string \<Rightarrow> 'n"
  encode :: "string \<Rightarrow> bytes"
  decode :: "bytes \<Rightarrow> string"

datatype 'n resolver_opt = ByName string | ByFunction "'n resolver_fn"

record 'n GetAllDnsRecordsOptions =
  resolver :: "'n resolver_opt"
  subdomains :: "string list"

definition defaultOptions :: "'n GetAllDnsRecordsOptions" where
  "defaultOptions = \<lparr>resolver = ByName ''cloudflare-dns'', subdomains = []\<rparr>"

definition getDnsRecords ::
  "'n module_env \<Rightarrow> string \<Rightarrow> string \<Rightarrow> 'n resolver_opt \<Rightarrow> error + 'n DnsRecord list" where
  "getDnsRecords env nm ty res =
     (if \<not> isDomain env nm then Inl (InvalidDomain nm)
      else case res of
          ByName k \<Rightarrow> (case dnsResolvers env k of
                          Some fn \<Rightarrow> fn nm ty
                        | None \<Rightarrow> Inl (InvalidResolver k))
        | ByFunction f \<Rightarrow> f nm ty)"

section \<open>The wire form of a record\<close>

text \<open>The line \<open>sendRecord\<close> builds, before it is encoded and written to the stream.\<close>

definition recordLine :: "'n module_env \<Rightarrow> 'n DnsRecord \<Rightarrow> string" where
  "recordLine env record =
     join [name record, numberToString env (ttl record), ''IN'', type record, data record] [TAB]"

text \<open>
  The argument of \<open>parseDnsRecord\<close> is a string or a \<open>Uint8Array\<close>; the latter is decoded
  first, and the decoded text is what is split and what the error message quotes.
\<close>

datatype wire = Text string | Uint8Array bytes

definition recordText :: "'n module_env \<Rightarrow> wire \<Rightarrow> string" where
  "recordText env record = (case record of Uint8Array b \<Rightarrow> decode env b | Text s \<Rightarrow> s)"

definition parseDnsRecord :: "'n module_env \<Rightarrow> wire \<Rightarrow> error + 'n DnsRecord" where
  "parseDnsRecord env record =
     (let parts = split_on TAB (recordText env record)
      in if length parts < 5 \<or> parts ! 2 \<noteq> ''IN''
         then Inl (InvalidRecord (recordText env record))
         else Inr \<lparr>name = parts ! 0, type = parts ! 3, ttl = toNumber env (parts ! 1),
                   data = parts ! 4\<rparr>)"

section \<open>Wildcard detection\<close>

definition addressTypes :: "string list" where
  "addressTypes = [''A'', ''AAAA'', ''CNAME'']"

definition groupKey :: "'n DnsRecord \<Rightarrow> string" where
  "groupKey record = type record @ ''-'' @ data record"

text \<open>\<open>sameDataGroup[key] || 0\<close>: a missing key reads as zero.\<close>

definition lookupCount :: "(string \<rightharpoonup> nat) \<Rightarrow> string \<Rightarrow> nat" where
  "lookupCount sameDataGroup key = (case sameDataGroup key of None \<Rightarrow> 0 | Some n \<Rightarrow> n)"

text \<open>The first loop: \<open>sameDataGroup[key] ||= 0; sameDataGroup[key]++\<close>.\<close>

definition countRecord :: "'n DnsRecord \<Rightarrow> (string \<rightharpoonup> nat) \<Rightarrow> (string \<rightharpoonup> nat)" where
  "countRecord record sameDataGroup =
     (if type record \<in> set addressTypes
      then sameDataGroup(groupKey record \<mapsto> lookupCount sameDataGroup (groupKey record) + 1)
      else sameDataGroup)"

definition defaultPercent :: real where
  "defaultPercent = 15 / 100"

text \<open>
  The body of the second loop, on the pair \<open>(wildcardsFound, recordsWithWildcard)\<close>.
  The quotient and the threshold are exact reals here and IEEE doubles in the source;
  \<open>recordTypeLength\<close> counts the record itself, so the divisor is never zero.
\<close>

definition wildcardStep ::
  "string list \<Rightarrow> string \<Rightarrow> 'n DnsRecord list \<Rightarrow> real \<Rightarrow> (string \<rightharpoonup> nat) \<Rightarrow> 'n DnsRecord
     \<Rightarrow> string list \<times> 'n DnsRecord list \<Rightarrow> string list \<times> 'n DnsRecord list" where
  "wildcardStep subs domain records percent sameDataGroup record acc =
     (case acc of (wildcardsFound, recordsWithWildcard) \<Rightarrow>
       if type record \<in> set addressTypes then
         (let key = groupKey record;
              sameData = lookupCount sameDataGroup key;
              recordTypeLength = length (filter (\<lambda>r. type r = type record) records)
          in if real sameData / real recordTypeLength < percent
                \<or> real recordTypeLength < real (length subs) / 2
             then (wildcardsFound, recordsWithWildcard @ [record])
             else if key \<notin> set wildcardsFound
             then (wildcardsFound @ [key],
                   recordsWithWildcard @ [record\<lparr>name := ''*.'' @ domain\<rparr>])
             else (wildcardsFound, recordsWithWildcard))
       else (wildcardsFound, recordsWithWildcard @ [record]))"

definition detectWildcardRecords ::
  "string list \<Rightarrow> string \<Rightarrow> 'n DnsRecord list \<Rightarrow> real \<Rightarrow> 'n DnsRecord list" where
  "detectWildcardRecords subs domain records percent =
     snd (fold (wildcardStep subs domain records percent (fold countRecord records Map.empty))
            records ([], []))"

text \<open>
  The classification in the words of the specification: the size of a record's
  \<open>(type, data)\<close> group, the number of records of its type, and the test for wildcard
  evidence.
\<close>

definition sameGroup :: "'n DnsRecord \<Rightarrow> 'n DnsRecord \<Rightarrow> bool" where
  "sameGroup r x = (type x = type r \<and> data x = data r)"

definition groupSize :: "'n DnsRecord list \<Rightarrow> 'n DnsRecord \<Rightarrow> nat" where
  "groupSize records r = length (filter (sameGroup r) records)"

definition typeTotal :: "'n DnsRecord list \<Rightarrow> 'n DnsRecord \<Rightarrow> nat" where
  "typeTotal records r = length (filter (\<lambda>x. type x = type r) records)"

definition wildcardEvidence :: "string list \<Rightarrow> 'n DnsRecord list \<Rightarrow> real \<Rightarrow> 'n DnsRecord \<Rightarrow> bool" where
  "wildcardEvidence subs records percent r =
     (type r \<in> set addressTypes
      \<and> real (groupSize records r) / real (typeTotal records r) \<ge> percent
      \<and> real (typeTotal records r) \<ge> real (length subs) / 2)"

section \<open>The discovery run\<close>

text \<open>
  \<open>getAllDnsRecordsStream\<close> starts promises and returns; each \<open>.then\<close> callback runs to
  its end when its promise resolves, and a promise that rejects runs no callback, since
  none is registered for rejection. A run is therefore a sequence of settlements of
  in-flight queries. The state holds the closure's variables, the chunks written to the
  stream and whether it is closed, the in-flight queries with the callback each is bound
  to, the log \<open>issued\<close> of every call of \<open>getDnsRecords\<close>, and the log \<open>accepted\<close> of
  the records whose hash \<open>sendRecord\<close> has pushed.
\<close>

datatype handler = NsHandler | SendRecords | MxHandler | TxtHandler

type_synonym query = "string \<times> string \<times> handler"

record 'n run_state =
  recordsHashes :: "string list"
  subdomainsChecked :: "string list"
  subdomainsExtra :: "string list"
  runningChecks :: int
  written :: "bytes list"
  closed :: bool
  pending :: "query list"
  issued :: "(string \<times> string) list"
  accepted :: "'n DnsRecord list"

definition recordHash :: "'n DnsRecord \<Rightarrow> string" where
  "recordHash record = name record @ ''-'' @ type record @ ''-'' @ data record"

text \<open>A write to a closed stream is refused and adds no chunk.\<close>

definition sendRecord ::
  "'n module_env \<Rightarrow> string \<Rightarrow> 'n DnsRecord \<Rightarrow> 'n run_state \<Rightarrow> 'n run_state" where
  "sendRecord env domain record s =
     (if recordHash record \<notin> set (recordsHashes s) \<and> endsWith (name record) domain
      then s\<lparr>recordsHashes := recordsHashes s @ [recordHash record],
             written := (if closed s then written s
                         else written s @ [encode env (recordLine env record)]),
             accepted := accepted s @ [record]\<rparr>
      else s)"

definition issue :: "query \<Rightarrow> 'n run_state \<Rightarrow> 'n run_state" where
  "issue q s = s\<lparr>pending := pending s @ [q], issued := issued s @ [(fst q, fst (snd q))]\<rparr>"

text \<open>
  The loop \<open>while (subdomainsExtra.length)\<close> of \<open>reqDone\<close>, by recursion on the queue it
  shifts; nothing in its body adds to the queue, which is empty when the loop ends.
\<close>

fun drain :: "string \<Rightarrow> string list \<Rightarrow> 'n run_state \<Rightarrow> 'n run_state" where
  "drain domain [] s = s\<lparr>subdomainsExtra := []\<rparr>"
| "drain domain (subdomain # rest) s =
     drain domain rest
       (if subdomain \<noteq> [] \<and> subdomain \<notin> set (subdomainsChecked s)
        then issue (subdomain @ ''.'' @ domain, ''A'', SendRecords)
               (s\<lparr>runningChecks := runningChecks s + 1,
                  subdomainsChecked := subdomainsChecked s @ [subdomain]\<rparr>)
        else s)"

definition reqDone :: "string \<Rightarrow> 'n run_state \<Rightarrow> 'n run_state" where
  "reqDone domain s =
     (let s1 = s\<lparr>runningChecks := runningChecks s - 1\<rparr>;
          s2 = (if runningChecks s1 = 0 then drain domain (subdomainsExtra s1) s1 else s1)
      in if runningChecks s2 = 0 then s2\<lparr>closed := True\<rparr> else s2)"

definition sendRecords ::
  "'n module_env \<Rightarrow> string \<Rightarrow> 'n DnsRecord list \<Rightarrow> 'n run_state \<Rightarrow> 'n run_state" where
  "sendRecords env domain records s = reqDone domain (fold (sendRecord env domain) records s)"

definition addSubdomain :: "string \<Rightarrow> string \<Rightarrow> string list \<Rightarrow> string list" where
  "addSubdomain domain v extra =
     (let v' = (if endsWith v ''.'' then butlast v else v)
      in if endsWith v' (''.'' @ domain)
         then (let subdomain = replace v' (''.'' @ domain) []
               in if subdomain \<notin> set extra then extra @ [subdomain] else extra)
         else extra)"

definition nsRecord ::
  "'n module_env \<Rightarrow> string \<Rightarrow> 'n DnsRecord \<Rightarrow> 'n run_state \<Rightarrow> 'n run_state" where
  "nsRecord env domain r s =
     (let s1 = sendRecord env domain r s
      in if includes_str (data r) domain
         then s1\<lparr>subdomainsExtra := addSubdomain domain (data r) (subdomainsExtra s1)\<rparr>
         else s1)"

definition mxRecord :: "string \<Rightarrow> 'n DnsRecord \<Rightarrow> string list \<Rightarrow> string list" where
  "mxRecord domain r extra =
     (if includes_str (data r) domain
      then (let parts = split_on (CHR '' '') (data r)
            in if length parts > 1 then addSubdomain domain (parts ! 1) extra else extra)
      else extra)"

definition spfToken :: "string \<Rightarrow> string \<Rightarrow> string list \<Rightarrow> string list" where
  "spfToken domain spf extra =
     (if startsWith spf ''include:'' \<and> endsWith spf domain
      then addSubdomain domain (replace spf ''include:'' []) extra
      else if startsWith spf ''a:'' \<and> endsWith spf domain
      then addSubdomain domain (replace spf ''a:'' []) extra
      else if startsWith spf ''mx:'' \<and> endsWith spf domain
      then addSubdomain domain (replace spf ''mx:'' []) extra
      else extra)"

definition txtRecord :: "string \<Rightarrow> 'n DnsRecord \<Rightarrow> string list \<Rightarrow> string list" where
  "txtRecord domain r extra =
     (if includes_str (data r) ''v=spf1'' \<and> includes_str (data r) domain
      then fold (spfToken domain) (split_on (CHR '' '') (data r)) extra
      else extra)"

definition rootQueries :: "string \<Rightarrow> query list" where
  "rootQueries domain =
     [(domain, ''SOA'', SendRecords), (domain, ''A'', SendRecords),
      (domain, ''AAAA'', SendRecords), (domain, ''MX'', MxHandler),
      (domain, ''TXT'', TxtHandler)]"

text \<open>The callback bound to a query, run on the records its promise resolved with.\<close>

definition callback ::
  "'n module_env \<Rightarrow> string \<Rightarrow> handler \<Rightarrow> 'n DnsRecord list \<Rightarrow> 'n run_state \<Rightarrow> 'n run_state" where
  "callback env domain h records s =
     (case h of
        NsHandler \<Rightarrow>
          (if records \<noteq> []
           then fold issue (rootQueries domain) (fold (nsRecord env domain) records s)
           else s\<lparr>closed := True\<rparr>)
      | SendRecords \<Rightarrow> sendRecords env domain records s
      | MxHandler \<Rightarrow>
          sendRecords env domain records
            (s\<lparr>subdomainsExtra := fold (mxRecord domain) records (subdomainsExtra s)\<rparr>)
      | TxtHandler \<Rightarrow>
          sendRecords env domain records
            (s\<lparr>subdomainsExtra := fold (txtRecord domain) records (subdomainsExtra s)\<rparr>))"

definition settle ::
  "'n module_env \<Rightarrow> 'n GetAllDnsRecordsOptions \<Rightarrow> string \<Rightarrow> query \<Rightarrow> 'n run_state \<Rightarrow> 'n run_state" where
  "settle env options domain q s =
     (case q of (nm, ty, h) \<Rightarrow>
        (case getDnsRecords env nm ty (resolver options) of
           Inl e \<Rightarrow> s
         | Inr records \<Rightarrow> callback env domain h records s))"

text \<open>
  One step of a run: the in-flight query at position \<open>i\<close> settles. A position beyond the
  in-flight queries names no query and changes nothing.
\<close>

definition step ::
  "'n module_env \<Rightarrow> 'n GetAllDnsRecordsOptions \<Rightarrow> string \<Rightarrow> 'n run_state \<Rightarrow> nat \<Rightarrow> 'n run_state" where
  "step env options domain s i =
     (if i < length (pending s)
      then settle env options domain (pending s ! i)
             (s\<lparr>pending := take i (pending s) @ drop (Suc i) (pending s)\<rparr>)
      else s)"

text \<open>The state in which \<open>getAllDnsRecordsStream\<close> returns, for the normalised domain.\<close>

definition start :: "'n module_env \<Rightarrow> 'n GetAllDnsRecordsOptions \<Rightarrow> string \<Rightarrow> 'n run_state" where
  "start env options domain =
     issue (domain, ''NS'', NsHandler)
       \<lparr>recordsHashes = [], subdomainsChecked = [],
        subdomainsExtra = subdomains options @ subdomainsRecords env,
        runningChecks = 5, written = [], closed = False, pending = [], issued = [],
        accepted = []\<rparr>"

definition getAllDnsRecordsStream ::
  "'n module_env \<Rightarrow> string \<Rightarrow> 'n GetAllDnsRecordsOptions \<Rightarrow> error + 'n run_state" where
  "getAllDnsRecordsStream env domain options =
     (if \<not> isDomain env domain then Inl (InvalidDomain domain)
      else Inr (start env options (toASCII env domain)))"

definition run ::
  "'n module_env \<Rightarrow> 'n GetAllDnsRecordsOptions \<Rightarrow> string \<Rightarrow> nat list \<Rightarrow> 'n run_state" where
  "run env options domain sched =
     foldl (step env options (toASCII env domain)) (start env options (toASCII env domain)) sched"

datatype 'a promise = Pending | Resolved 'a | Rejected error

text \<open>
  The reader's loop: each chunk, a \<open>Uint8Array\<close>, is parsed in turn, the first failure is
  thrown.
\<close>

fun readChunks :: "'n module_env \<Rightarrow> bytes list \<Rightarrow> error + 'n DnsRecord list" where
  "readChunks env [] = Inr []"
| "readChunks env (chunk # chunks) =
     (case parseDnsRecord env (Uint8Array chunk) of
        Inl e \<Rightarrow> Inl e
      | Inr record \<Rightarrow>
          (case readChunks env chunks of
             Inl e \<Rightarrow> Inl e
           | Inr records \<Rightarrow> Inr (record # records)))"

text \<open>
  The promise of \<open>getAllDnsRecords\<close> once the settlements of \<open>sched\<close> have happened: rejected
  by an invalid domain or a chunk that does not parse, resolved when the stream is closed,
  pending otherwise.
\<close>

definition getAllDnsRecords ::
  "'n module_env \<Rightarrow> string \<Rightarrow> 'n GetAllDnsRecordsOptions \<Rightarrow> nat list \<Rightarrow> 'n DnsRecord list promise" where
  "getAllDnsRecords env domain options sched =
     (case getAllDnsRecordsStream env domain options of
        Inl e \<Rightarrow> Rejected e
      | Inr s0 \<Rightarrow>
          (let s = foldl (step env options (toASCII env domain)) s0 sched
           in case readChunks env (written s) of
                Inl e \<Rightarrow> Rejected e
              | Inr records \<Rightarrow>
                  if closed s
                  then Resolved (detectWildcardRecords (subdomainsRecords env) domain records
                                   defaultPercent)
                  else Pending))"

section \<open>Auxiliary notions for the proofs\<close>

text \<open>The labels one pass of the loop in \<open>reqDone\<close> dispatches, given those checked before.\<close>

fun fresh :: "string list \<Rightarrow> string list \<Rightarrow> string list" where
  "fresh checked [] = []"
| "fresh checked (x # xs) =
     (if x \<noteq> [] \<and> x \<notin> set checked then x # fresh (checked @ [x]) xs
      else fresh checked xs)"

definition subdomainQuery :: "string \<Rightarrow> string \<Rightarrow> string \<times> string" where
  "subdomainQuery domain label = (label @ ''.'' @ domain, ''A'')"

definition queryKey :: "query \<Rightarrow> string \<times> string" where
  "queryKey q = (fst q, fst (snd q))"


text \<open>The candidate queue after the inference of a callback.\<close>

definition extrasAfter :: "string \<Rightarrow> handler \<Rightarrow> 'n DnsRecord list \<Rightarrow> string list \<Rightarrow> string list" where
  "extrasAfter d h records extra =
     (case h of
        MxHandler \<Rightarrow> fold (mxRecord d) records extra
      | TxtHandler \<Rightarrow> fold (txtRecord d) records extra
      | _ \<Rightarrow> extra)"

text \<open>
  The shape of a run once the name-server answer has started the five root queries: the
  log of queries is the bootstrap, the root queries and one query per checked label, and
  the counter is at least the number of queries in flight and is zero exactly when the
  stream is closed.
\<close>

definition phase1 :: "string \<Rightarrow> 'n run_state \<Rightarrow> bool" where
  "phase1 d s \<longleftrightarrow>
     (\<forall>q\<in>set (pending s). snd (snd q) \<noteq> NsHandler)
     \<and> issued s = (d, ''NS'') # map queryKey (rootQueries d)
                      @ map (subdomainQuery d) (subdomainsChecked s)
     \<and> distinct (subdomainsChecked s) \<and> [] \<notin> set (subdomainsChecked s)
     \<and> int (length (pending s)) \<le> runningChecks s
     \<and> (closed s \<longleftrightarrow> runningChecks s = 0)"

text \<open>
  The states of a run: the initial state; the state after a bootstrap that failed or found
  no name server; or a state of the shape above, with a further property \<open>Q\<close> to be shown
  of such states.
\<close>

definition structured ::
  "('n run_state \<Rightarrow> bool) \<Rightarrow> 'n module_env \<Rightarrow> 'n GetAllDnsRecordsOptions \<Rightarrow> string \<Rightarrow> 'n run_state \<Rightarrow> bool" where
  "structured Q env options d s \<longleftrightarrow>
     s = start env options d
     \<or> (s = (start env options d)\<lparr>pending := [], closed := False\<rparr>
         \<and> (\<exists>e. getDnsRecords env d ''NS'' (resolver options) = Inl e))
     \<or> (s = (start env options d)\<lparr>pending := [], closed := True\<rparr>
         \<and> getDnsRecords env d ''NS'' (resolver options) = Inr [])
     \<or> (phase1 d s \<and> Q s
         \<and> (\<exists>records. records \<noteq> [] \<and> getDnsRecords env d ''NS'' (resolver options) = Inr records))"

text \<open>A query whose promise rejects.\<close>

definition failing :: "'n module_env \<Rightarrow> 'n GetAllDnsRecordsOptions \<Rightarrow> string \<times> string \<Rightarrow> bool" where
  "failing env options k =
     (case getDnsRecords env (fst k) (snd k) (resolver options) of
        Inl e \<Rightarrow> True
      | Inr records \<Rightarrow> False)"

text \<open>
  The counter is the number of queries in flight that will resolve plus the number of
  queries after the bootstrap that reject.
\<close>

definition counted :: "'n module_env \<Rightarrow> 'n GetAllDnsRecordsOptions \<Rightarrow> 'n run_state \<Rightarrow> bool" where
  "counted env options s \<longleftrightarrow>
     runningChecks s
       = int (length (filter (\<lambda>q. \<not> failing env options (queryKey q)) (pending s)))
         + int (length (filter (failing env options) (tl (issued s))))"




section \<open>Example inputs\<close>

text \<open>
  An example platform, for the scenarios below. Its numbers are the natural numbers,
  the negative zero and \<open>NaN\<close>. On the integers from 0 to \<open>2^53\<close>, on \<open>-0\<close>, which is
  written \<open>0\<close>, and on \<open>NaN\<close>, \<open>decimalString\<close> is \<open>String\<close>; on the decimal numerals of
  these integers, and on the empty string, which gives 0, \<open>decimalNumber\<close> is \<open>Number\<close>.
  \<open>decimalNumber\<close> sends every other string to \<open>NaN\<close>, which \<open>Number\<close> does not (it also
  reads signed, fractional, exponent, hexadecimal and blank-padded numerals); the
  scenarios apply it to decimal numerals only. The text of the platform is well-formed:
  on a string without lone surrogates \<open>TextEncoder.encode\<close> is \<open>utf8Encode\<close>, the identity
  on the bytes, and on well-formed bytes \<open>TextDecoder.decode\<close> is \<open>utf8Decode\<close>, which
  removes a leading byte order mark.
\<close>

datatype number = Num nat | MinusZero | NaN

definition digit_char :: "nat \<Rightarrow> char" where
  "digit_char d = ''0123456789'' ! d"

definition digit_val :: "char \<Rightarrow> nat" where
  "digit_val c = of_char c - 48"

definition is_digit :: "char \<Rightarrow> bool" where
  "is_digit c = (c \<in> set ''0123456789'')"

fun string_of_nat :: "nat \<Rightarrow> string" where
  "string_of_nat n =
     (if n < 10 then [digit_char n]
      else string_of_nat (n div 10) @ [digit_char (n mod 10)])"

declare string_of_nat.simps [simp del]

definition nat_of_string :: "string \<Rightarrow> nat" where
  "nat_of_string s = foldl (\<lambda>n c. 10 * n + digit_val c) 0 s"

definition decimalString :: "number \<Rightarrow> string" where
  "decimalString x =
     (case x of Num n \<Rightarrow> string_of_nat n | MinusZero \<Rightarrow> ''0'' | NaN \<Rightarrow> ''NaN'')"

definition decimalNumber :: "string \<Rightarrow> number" where
  "decimalNumber s = (if list_all is_digit s then Num (nat_of_string s) else NaN)"

definition byteOrderMark :: bytes where
  "byteOrderMark = [CHR 0xEF, CHR 0xBB, CHR 0xBF]"

definition utf8Encode :: "string \<Rightarrow> bytes" where
  "utf8Encode s = s"

definition utf8Decode :: "bytes \<Rightarrow> string" where
  "utf8Decode b = (if startsWith b byteOrderMark then drop (length byteOrderMark) b else b)"

definition twentyRecords :: "number DnsRecord list" where
  "twentyRecords =
     [\<lparr>name = ''h1.example.com'', type = ''A'', ttl = Num 300, data = ''192.0.2.1''\<rparr>,
      \<lparr>name = ''h2.example.com'', type = ''A'', ttl = Num 300, data = ''192.0.2.1''\<rparr>,
      \<lparr>name = ''h3.example.com'', type = ''A'', ttl = Num 300, data = ''192.0.2.1''\<rparr>,
      \<lparr>name = ''h4.example.com'', type = ''A'', ttl = Num 300, data = ''192.0.2.1''\<rparr>,
      \<lparr>name = ''h5.example.com'', type = ''A'', ttl = Num 300, data = ''192.0.2.1''\<rparr>,
      \<lparr>name = ''h6.example.com'', type = ''A'', ttl = Num 300, data = ''192.0.2.1''\<rparr>,
      \<lparr>name = ''h7.example.com'', type = ''A'', ttl = Num 300, data = ''192.0.2.1''\<rparr>,
      \<lparr>name = ''h8.example.com'', type = ''A'', ttl = Num 300, data = ''192.0.2.1''\<rparr>,
      \<lparr>name = ''h9.example.com'', type = ''A'', ttl = Num 300, data = ''192.0.2.1''\<rparr>,
      \<lparr>name = ''h10.example.com'', type = ''A'', ttl = Num 300, data = ''192.0.2.1''\<rparr>,
      \<lparr>name = ''h11.example.com'', type = ''A'', ttl = Num 300, data = ''192.0.2.1''\<rparr>,
      \<lparr>name = ''h12.example.com'', type = ''A'', ttl = Num 300, data = ''192.0.2.1''\<rparr>,
      \<lparr>name = ''h13.example.com'', type = ''A'', ttl = Num 300, data = ''192.0.2.1''\<rparr>,
      \<lparr>name = ''h14.example.com'', type = ''A'', ttl = Num 300, data = ''192.0.2.1''\<rparr>,
      \<lparr>name = ''h15.example.com'', type = ''A'', ttl = Num 300, data = ''192.0.2.1''\<rparr>,
      \<lparr>name = ''h16.example.com'', type = ''A'', ttl = Num 300, data = ''192.0.2.1''\<rparr>,
      \<lparr>name = ''h17.example.com'', type = ''A'', ttl = Num 300, data = ''192.0.2.1''\<rparr>,
      \<lparr>name = ''h18.example.com'', type = ''A'', ttl = Num 300, data = ''192.0.2.1''\<rparr>,
      \<lparr>name = ''h19.example.com'', type = ''A'', ttl = Num 300, data = ''192.0.2.1''\<rparr>,
      \<lparr>name = ''h20.example.com'', type = ''A'', ttl = Num 300, data = ''192.0.2.1''\<rparr>]"

definition fewRecords :: "number DnsRecord list" where
  "fewRecords =
     [\<lparr>name = ''example.com'', type = ''NS'', ttl = Num 60, data = ''ns1.example.net.''\<rparr>,
      \<lparr>name = ''a.example.com'', type = ''A'', ttl = Num 300, data = ''192.0.2.1''\<rparr>,
      \<lparr>name = ''b.example.com'', type = ''A'', ttl = Num 200, data = ''192.0.2.1''\<rparr>,
      \<lparr>name = ''c.example.com'', type = ''A'', ttl = Num 100, data = ''192.0.2.9''\<rparr>]"

text \<open>
  The scenario of the specification: \<open>example.com\<close> with two name servers, an SOA record,
  one address and the mail exchanger \<open>10 mail.example.com.\<close>; in addition \<open>www\<close> is
  an alias of a host outside the domain whose name ends in \<open>example.com\<close>.
\<close>

definition exampleResolver :: "number resolver_fn" where
  "exampleResolver nm ty =
     (if nm = ''example.com'' \<and> ty = ''NS'' then
        Inr [\<lparr>name = ''example.com'', type = ''NS'', ttl = Num 3600, data = ''ns1.example.com.''\<rparr>,
             \<lparr>name = ''example.com'', type = ''NS'', ttl = Num 3600, data = ''ns2.example.net.''\<rparr>]
      else if nm = ''example.com'' \<and> ty = ''SOA'' then
        Inr [\<lparr>name = ''example.com'', type = ''SOA'', ttl = Num 600,
               data = ''ns1.example.com. admin.example.com. 1 7200 3600 86400 600''\<rparr>]
      else if nm = ''example.com'' \<and> ty = ''A'' then
        Inr [\<lparr>name = ''example.com'', type = ''A'', ttl = Num 300, data = ''93.184.216.34''\<rparr>]
      else if nm = ''example.com'' \<and> ty = ''MX'' then
        Inr [\<lparr>name = ''example.com'', type = ''MX'', ttl = Num 300, data = ''10 mail.example.com.''\<rparr>]
      else if nm = ''example.com'' \<and> ty = ''TXT'' then
        Inr [\<lparr>name = ''example.com'', type = ''TXT'', ttl = Num 300,
               data = ''v=spf1 a:mail.example.com ~all''\<rparr>]
      else if nm = ''mail.example.com'' \<and> ty = ''A'' then
        Inr [\<lparr>name = ''mail.example.com'', type = ''A'', ttl = Num 300, data = ''192.0.2.25''\<rparr>]
      else if nm = ''www.example.com'' \<and> ty = ''A'' then
        Inr [\<lparr>name = ''www.example.com'', type = ''CNAME'', ttl = Num 300,
               data = ''cdn.notexample.com.''\<rparr>,
             \<lparr>name = ''cdn.notexample.com'', type = ''A'', ttl = Num 60, data = ''198.51.100.7''\<rparr>]
      else Inr [])"

definition exampleEnv :: "number module_env" where
  "exampleEnv =
     \<lparr>subdomainsRecords = [''www'', ''mail'', ''ftp'', ''blog'', ''shop'', ''api'', ''dev'', ''vpn''],
      toASCII = (\<lambda>d. d), isDomain = (\<lambda>d. True),
      dnsResolvers = (\<lambda>k. if k = ''cloudflare-dns'' then Some exampleResolver else None),
      numberToString = decimalString, toNumber = decimalNumber,
      encode = utf8Encode, decode = utf8Decode\<rparr>"

text \<open>The records the sink accepts in the scenario, settling the oldest query first.\<close>

definition exampleAccepted :: "number DnsRecord list" where
  "exampleAccepted =
     [\<lparr>name = ''example.com'', type = ''NS'', ttl = Num 3600, data = ''ns1.example.com.''\<rparr>,
      \<lparr>name = ''example.com'', type = ''NS'', ttl = Num 3600, data = ''ns2.example.net.''\<rparr>,
      \<lparr>name = ''example.com'', type = ''SOA'', ttl = Num 600,
         data = ''ns1.example.com. admin.example.com. 1 7200 3600 86400 600''\<rparr>,
      \<lparr>name = ''example.com'', type = ''A'', ttl = Num 300, data = ''93.184.216.34''\<rparr>,
      \<lparr>name = ''example.com'', type = ''MX'', ttl = Num 300, data = ''10 mail.example.com.''\<rparr>,
      \<lparr>name = ''example.com'', type = ''TXT'', ttl = Num 300,
         data = ''v=spf1 a:mail.example.com ~all''\<rparr>,
      \<lparr>name = ''www.example.com'', type = ''CNAME'', ttl = Num 300,
         data = ''cdn.notexample.com.''\<rparr>,
      \<lparr>name = ''cdn.notexample.com'', type = ''A'', ttl = Num 60, data = ''198.51.100.7''\<rparr>,
      \<lparr>name = ''mail.example.com'', type = ''A'', ttl = Num 300, data = ''192.0.2.25''\<rparr>]"

definition exampleSchedule :: "nat list" where
  "exampleSchedule = [0, 0, 0, 0, 0, 0, 0, 0, 0, 0, 0, 0, 0, 0, 0]"

text \<open>The same domain while the SOA query fails.\<close>

definition outageResolver :: "number resolver_fn" where
  "outageResolver nm ty =
     (if ty = ''SOA'' then Inl (ResolverFailure ''503 Service Unavailable'')
      else exampleResolver nm ty)"



text \<open>A domain without delegation.\<close>

definition emptyResolver :: "number resolver_fn" where
  "emptyResolver nm ty = Inr []"

definition plainEnv :: "number module_env" where
  "plainEnv =
     \<lparr>subdomainsRecords = [], toASCII = (\<lambda>d. d), isDomain = (\<lambda>d. True),
      dnsResolvers = (\<lambda>k. None),
      numberToString = decimalString, toNumber = decimalNumber,
      encode = utf8Encode, decode = utf8Decode\<rparr>"

definition optionsWith :: "'n resolver_fn \<Rightarrow> 'n GetAllDnsRecordsOptions" where
  "optionsWith f = \<lparr>resolver = ByFunction f, subdomains = []\<rparr>"

text \<open>The caller's extra labels name a label that the static list holds as well.\<close>

definition repeatedSeedOptions :: "'n GetAllDnsRecordsOptions" where
  "repeatedSeedOptions = \<lparr>resolver = ByName ''cloudflare-dns'', subdomains = [''www'']\<rparr>"

section \<open>Splitting, joining and numerals\<close>


lemma split_on_not_Nil: "split_on c s \<noteq> []"
  by (induction s) (auto split: list.splits)

lemma split_on_notin: "c \<notin> set s \<Longrightarrow> split_on c s = [s]"
  by (induction s) auto

lemma split_on_append: "c \<notin> set x \<Longrightarrow> split_on c (x @ c # ys) = x # split_on c ys"
  by (induction x) auto

lemma length_split_on: "length (split_on c s) = Suc (count_list s c)"
  by (induction s) (auto split: list.splits)

lemma string_of_nat_small: "n < 10 \<Longrightarrow> string_of_nat n = [digit_char n]"
  by (subst string_of_nat.simps) simp

lemma string_of_nat_big:
  "\<not> n < 10 \<Longrightarrow> string_of_nat n = string_of_nat (n div 10) @ [digit_char (n mod 10)]"
  by (subst string_of_nat.simps) simp

lemmas platform_eval = decimalString_def string_of_nat_small string_of_nat_big digit_char_def
  decimalNumber_def is_digit_def nat_of_string_def digit_val_def utf8Encode_def utf8Decode_def
  byteOrderMark_def startsWith_def

lemmas wire_eval = parseDnsRecord_def recordLine_def recordText_def platform_eval

lemma digit_char_is_digit: "d < 10 \<Longrightarrow> is_digit (digit_char d)"
proof -
  assume "d < 10"
  then have "d \<in> {0,1,2,3,4,5,6,7,8,9}" by auto
  then show ?thesis by (auto simp: is_digit_def digit_char_def)
qed

lemma digit_val_digit_char: "d < 10 \<Longrightarrow> digit_val (digit_char d) = d"
proof -
  assume "d < 10"
  then have "d \<in> {0,1,2,3,4,5,6,7,8,9}" by auto
  then show ?thesis by (auto simp: digit_val_def digit_char_def)
qed

lemma is_digit_not_TAB: "is_digit c \<Longrightarrow> c \<noteq> TAB"
  by (auto simp: is_digit_def)

lemma string_of_nat_digits: "list_all is_digit (string_of_nat n)"
proof (induction n rule: string_of_nat.induct)
  case (1 n)
  show ?case
  proof (cases "n < 10")
    case True
    then show ?thesis by (subst string_of_nat.simps) (simp add: digit_char_is_digit)
  next
    case False
    then show ?thesis using 1
      by (subst string_of_nat.simps) (simp add: digit_char_is_digit)
  qed
qed

lemma nat_of_string_snoc: "nat_of_string (s @ [c]) = 10 * nat_of_string s + digit_val c"
  by (simp add: nat_of_string_def)

lemma nat_of_string_of_nat: "nat_of_string (string_of_nat n) = n"
proof (induction n rule: string_of_nat.induct)
  case (1 n)
  show ?case
  proof (cases "n < 10")
    case True
    then show ?thesis
      by (subst string_of_nat.simps) (simp add: nat_of_string_def digit_val_digit_char)
  next
    case False
    then have "nat_of_string (string_of_nat (n div 10)) = n div 10" using 1 by simp
    with False show ?thesis
      by (subst string_of_nat.simps) (simp add: nat_of_string_snoc digit_val_digit_char)
  qed
qed

lemma decimalNumber_decimalString: "x \<noteq> MinusZero \<Longrightarrow> decimalNumber (decimalString x) = x"
proof (cases x)
  case (Num n)
  then show ?thesis
    by (simp add: decimalNumber_def decimalString_def string_of_nat_digits nat_of_string_of_nat)
next
  case MinusZero
  assume "x \<noteq> MinusZero"
  then show ?thesis using MinusZero by simp
next
  case NaN
  then show ?thesis by (simp add: decimalNumber_def decimalString_def is_digit_def)
qed

lemma decimalString_no_TAB: "TAB \<notin> set (decimalString x)"
proof (cases x)
  case (Num n)
  have "\<forall>c\<in>set (string_of_nat n). is_digit c"
    using string_of_nat_digits [of n] by (simp add: list_all_iff)
  then show ?thesis using Num is_digit_not_TAB by (auto simp: decimalString_def)
next
  case MinusZero
  then show ?thesis by (simp add: decimalString_def)
next
  case NaN
  then show ?thesis by (simp add: decimalString_def)
qed

lemma utf8_roundtrip: "\<not> startsWith s byteOrderMark \<Longrightarrow> utf8Decode (utf8Encode s) = s"
  by (simp add: utf8Decode_def utf8Encode_def)

lemma split_recordLine:
  assumes "TAB \<notin> set (name r)" "TAB \<notin> set (type r)" "TAB \<notin> set (numberToString env (ttl r))"
  shows "split_on TAB (recordLine env r) =
           name r # numberToString env (ttl r) # ''IN'' # type r # split_on TAB (data r)"
proof -
  have "TAB \<notin> set ''IN''" by simp
  then show ?thesis
    unfolding recordLine_def
    using assms
    by (simp add: split_on_append)
qed

lemma parse_line:
  fixes r :: "'n DnsRecord"
  assumes "TAB \<notin> set (name r)" "TAB \<notin> set (type r)" "TAB \<notin> set (data r)"
    "TAB \<notin> set (numberToString env (ttl r))"
    "recordText env record = recordLine env r"
  shows "parseDnsRecord env record
           = Inr (r\<lparr>ttl := toNumber env (numberToString env (ttl r))\<rparr>)"
  using assms
  by (simp add: parseDnsRecord_def split_recordLine split_on_notin)

lemma recordText_Text: "recordText env (Text s) = s"
  by (simp add: recordText_def)

lemma recordText_Uint8Array: "recordText env (Uint8Array b) = decode env b"
  by (simp add: recordText_def)

lemma parse_text:
  fixes r :: "'n DnsRecord"
  assumes "TAB \<notin> set (name r)" "TAB \<notin> set (type r)" "TAB \<notin> set (data r)"
    "TAB \<notin> set (numberToString env (ttl r))"
  shows "parseDnsRecord env (Text (recordLine env r))
           = Inr (r\<lparr>ttl := toNumber env (numberToString env (ttl r))\<rparr>)"
  using assms by (intro parse_line) (simp_all add: recordText_Text)

lemma parse_chunk:
  fixes r :: "'n DnsRecord"
  assumes "TAB \<notin> set (name r)" "TAB \<notin> set (type r)" "TAB \<notin> set (data r)"
    "TAB \<notin> set (numberToString env (ttl r))"
    "decode env (encode env (recordLine env r)) = recordLine env r"
  shows "parseDnsRecord env (Uint8Array (encode env (recordLine env r)))
           = Inr (r\<lparr>ttl := toNumber env (numberToString env (ttl r))\<rparr>)"
  using assms by (intro parse_line) (simp_all add: recordText_Uint8Array)

lemma split_join_five:
  assumes "TAB \<notin> set f0" "TAB \<notin> set f1" "TAB \<notin> set f2" "TAB \<notin> set f3" "TAB \<notin> set f4"
  shows "\<exists>more. split_on TAB (join (f0 # f1 # f2 # f3 # f4 # rest) [TAB])
                  = f0 # f1 # f2 # f3 # f4 # more"
proof (cases rest)
  case Nil
  then show ?thesis using assms by (simp add: split_on_append split_on_notin)
next
  case (Cons x xs)
  then show ?thesis using assms by (simp add: split_on_append)
qed

lemma readChunks_lines:
  assumes "\<forall>r\<in>set acc. TAB \<notin> set (name r) \<and> TAB \<notin> set (type r) \<and> TAB \<notin> set (data r)
             \<and> TAB \<notin> set (numberToString env (ttl r))
             \<and> decode env (encode env (recordLine env r)) = recordLine env r"
  shows "readChunks env (map (\<lambda>r. encode env (recordLine env r)) acc)
           = Inr (map (\<lambda>r. r\<lparr>ttl := toNumber env (numberToString env (ttl r))\<rparr>) acc)"
  using assms by (induction acc) (simp_all add: parse_chunk)

section \<open>Parsing a record line\<close>

text \<open>
  C7, as amended. Take a record whose name, type and data hold no tab character and whose
  ttl is written by \<open>String\<close> without a tab and read back by \<open>Number\<close> as the same number.
  \<open>parseDnsRecord\<close> returns it field for field from the tab-separated line
  \<open>name, ttl, IN, type, data\<close> that \<open>sendRecord\<close> builds for it, and also from the chunk
  that \<open>sendRecord\<close> writes, the encoded line, provided that decoding the chunk gives the
  line back.
\<close>

theorem wire_roundtrip_without_tabs:
  fixes r :: "'n DnsRecord"
  shows "TAB \<notin> set (name r) \<and> TAB \<notin> set (type r) \<and> TAB \<notin> set (data r)
         \<and> TAB \<notin> set (numberToString env (ttl r))
         \<and> toNumber env (numberToString env (ttl r)) = ttl r
           \<Longrightarrow> parseDnsRecord env (Text (recordLine env r)) = Inr r
               \<and> (decode env (encode env (recordLine env r)) = recordLine env r
                    \<longrightarrow> parseDnsRecord env (Uint8Array (encode env (recordLine env r))) = Inr r)"
  by (simp add: parse_text parse_chunk)

theorem wire_roundtrip_without_tabs_witness:
  "(TAB \<notin> set ''mail.example.com'' \<and> TAB \<notin> set ''A'' \<and> TAB \<notin> set ''192.0.2.7'')
   \<and> numberToString exampleEnv (Num 3600) = ''3600''
   \<and> toNumber exampleEnv ''3600'' = Num 3600
   \<and> parseDnsRecord exampleEnv
        (Text (recordLine exampleEnv \<lparr>name = ''mail.example.com'', type = ''A'', ttl = Num 3600,
                                         data = ''192.0.2.7''\<rparr>))
       = Inr \<lparr>name = ''mail.example.com'', type = ''A'', ttl = Num 3600, data = ''192.0.2.7''\<rparr>
   \<and> decode exampleEnv
        (encode exampleEnv
           (recordLine exampleEnv \<lparr>name = ''mail.example.com'', type = ''A'', ttl = Num 3600,
                                    data = ''192.0.2.7''\<rparr>))
       = recordLine exampleEnv \<lparr>name = ''mail.example.com'', type = ''A'', ttl = Num 3600,
                                  data = ''192.0.2.7''\<rparr>
   \<and> parseDnsRecord exampleEnv
        (Uint8Array
           (encode exampleEnv
              (recordLine exampleEnv \<lparr>name = ''mail.example.com'', type = ''A'', ttl = Num 3600,
                                       data = ''192.0.2.7''\<rparr>)))
       = Inr \<lparr>name = ''mail.example.com'', type = ''A'', ttl = Num 3600, data = ''192.0.2.7''\<rparr>"
proof -
  let ?r = "\<lparr>name = ''mail.example.com'', type = ''A'', ttl = Num 3600, data = ''192.0.2.7''\<rparr>"
  have n: "numberToString exampleEnv (Num 3600) = ''3600''"
    "toNumber exampleEnv ''3600'' = Num 3600"
    by (simp_all add: exampleEnv_def platform_eval)
  have d: "decode exampleEnv (encode exampleEnv (recordLine exampleEnv ?r))
             = recordLine exampleEnv ?r"
    by (simp add: exampleEnv_def recordLine_def platform_eval)
  have "parseDnsRecord exampleEnv (Text (recordLine exampleEnv ?r)) = Inr ?r
        \<and> (decode exampleEnv (encode exampleEnv (recordLine exampleEnv ?r))
               = recordLine exampleEnv ?r
             \<longrightarrow> parseDnsRecord exampleEnv (Uint8Array (encode exampleEnv (recordLine exampleEnv ?r)))
                   = Inr ?r)"
    using wire_roundtrip_without_tabs [of ?r exampleEnv] n by simp
  then show ?thesis using n d by simp
qed

text \<open>
  C7 as stated fails. A TXT record whose data holds a tab comes back from its chunk with
  the data cut at the tab; a record whose name begins with a byte order mark comes back
  without the mark; and a record whose ttl is the negative zero, which \<open>String\<close> writes as
  \<open>0\<close>, comes back with the ttl 0.
\<close>

theorem wire_roundtrip_counterexample:
  "parseDnsRecord exampleEnv
     (Uint8Array
        (encode exampleEnv
           (recordLine exampleEnv \<lparr>name = ''example.com'', type = ''TXT'', ttl = Num 60,
                                    data = ''x'' @ [TAB] @ ''y''\<rparr>)))
     = Inr \<lparr>name = ''example.com'', type = ''TXT'', ttl = Num 60, data = ''x''\<rparr>
   \<and> \<lparr>name = ''example.com'', type = ''TXT'', ttl = Num 60, data = ''x''\<rparr>
       \<noteq> \<lparr>name = ''example.com'', type = ''TXT'', ttl = Num 60, data = ''x'' @ [TAB] @ ''y''\<rparr>
   \<and> parseDnsRecord exampleEnv
       (Uint8Array
          (encode exampleEnv
             (recordLine exampleEnv \<lparr>name = byteOrderMark @ ''example.com'', type = ''A'',
                                      ttl = Num 60, data = ''192.0.2.7''\<rparr>)))
       = Inr \<lparr>name = ''example.com'', type = ''A'', ttl = Num 60, data = ''192.0.2.7''\<rparr>
   \<and> byteOrderMark @ ''example.com'' \<noteq> ''example.com''
   \<and> parseDnsRecord exampleEnv
       (Uint8Array
          (encode exampleEnv
             (recordLine exampleEnv \<lparr>name = ''example.com'', type = ''A'', ttl = MinusZero,
                                      data = ''192.0.2.7''\<rparr>)))
       = Inr \<lparr>name = ''example.com'', type = ''A'', ttl = Num 0, data = ''192.0.2.7''\<rparr>
   \<and> Num 0 \<noteq> MinusZero"
  by (simp add: wire_eval exampleEnv_def)

text \<open>
  C10. \<open>parseDnsRecord\<close> throws exactly when its input, decoded if it is a \<open>Uint8Array\<close>,
  has fewer than five tab-separated fields (fewer than four tabs) or its third field is
  not \<open>IN\<close>. An input of five or more fields with \<open>IN\<close> in third place parses to the record
  of its first, second, fourth and fifth fields, whatever follows the fifth.
\<close>

theorem parseDnsRecord_throws_iff:
  "((\<exists>e. parseDnsRecord env record = Inl e)
      \<longleftrightarrow> (Suc (count_list (recordText env record) TAB) < 5
           \<or> split_on TAB (recordText env record) ! 2 \<noteq> ''IN''))
   \<and> (TAB \<notin> set f0 \<and> TAB \<notin> set f1 \<and> TAB \<notin> set f3 \<and> TAB \<notin> set f4
        \<and> recordText env record = join (f0 # f1 # ''IN'' # f3 # f4 # rest) [TAB]
        \<longrightarrow> parseDnsRecord env record
              = Inr \<lparr>name = f0, type = f3, ttl = toNumber env f1, data = f4\<rparr>)
   \<and> recordText env (Text s) = s
   \<and> recordText env (Uint8Array b) = decode env b"
proof (intro conjI impI)
  show "(\<exists>e. parseDnsRecord env record = Inl e)
          \<longleftrightarrow> (Suc (count_list (recordText env record) TAB) < 5
               \<or> split_on TAB (recordText env record) ! 2 \<noteq> ''IN'')"
    unfolding parseDnsRecord_def Let_def length_split_on [symmetric] by auto
next
  assume h: "TAB \<notin> set f0 \<and> TAB \<notin> set f1 \<and> TAB \<notin> set f3 \<and> TAB \<notin> set f4
        \<and> recordText env record = join (f0 # f1 # ''IN'' # f3 # f4 # rest) [TAB]"
  have "TAB \<notin> set ''IN''" by simp
  with h obtain more where
    "split_on TAB (join (f0 # f1 # ''IN'' # f3 # f4 # rest) [TAB])
       = f0 # f1 # ''IN'' # f3 # f4 # more"
    using split_join_five [of f0 f1 "''IN''" f3 f4 rest] by blast
  then show "parseDnsRecord env record
               = Inr \<lparr>name = f0, type = f3, ttl = toNumber env f1, data = f4\<rparr>"
    using h by (simp add: parseDnsRecord_def)
next
  show "recordText env (Text s) = s"
    by (rule recordText_Text)
next
  show "recordText env (Uint8Array b) = decode env b"
    by (rule recordText_Uint8Array)
qed

theorem parseDnsRecord_throws_iff_witness:
  "(\<exists>e. parseDnsRecord exampleEnv
           (Text (''a'' @ [TAB] @ ''1'' @ [TAB] @ ''XX'' @ [TAB] @ ''A'' @ [TAB] @ ''d'')) = Inl e)
   \<and> (TAB \<notin> set ''a'' \<and> TAB \<notin> set ''1'' \<and> TAB \<notin> set ''A'' \<and> TAB \<notin> set ''d'')
   \<and> parseDnsRecord exampleEnv
        (Text (join [''a'', ''1'', ''IN'', ''A'', ''d'', ''dropped''] [TAB]))
       = Inr \<lparr>name = ''a'', type = ''A'', ttl = toNumber exampleEnv ''1'', data = ''d''\<rparr>"
  using parseDnsRecord_throws_iff
          [of exampleEnv
              "Text (''a'' @ [TAB] @ ''1'' @ [TAB] @ ''XX'' @ [TAB] @ ''A'' @ [TAB] @ ''d'')"
              "''a''" "''1''" "''A''" "''d''" "[''dropped'']"]
        parseDnsRecord_throws_iff
          [of exampleEnv "Text (join [''a'', ''1'', ''IN'', ''A'', ''d'', ''dropped''] [TAB])"
              "''a''" "''1''" "''A''" "''d''" "[''dropped'']"]
  by (simp add: recordText_def)

section \<open>Wildcard detection: the classification\<close>

lemma groupKey_inj:
  "type x \<in> set addressTypes \<Longrightarrow> type r \<in> set addressTypes
     \<Longrightarrow> (groupKey x = groupKey r) = sameGroup r x"
  by (auto simp: addressTypes_def groupKey_def sameGroup_def)

lemma lookupCount_upd:
  "lookupCount (m(k \<mapsto> v)) k' = (if k' = k then v else lookupCount m k')"
  by (simp add: lookupCount_def)

lemma lookupCount_countRecord:
  "lookupCount (countRecord x m) k
     = lookupCount m k + (if type x \<in> set addressTypes \<and> groupKey x = k then 1 else 0)"
  by (simp add: countRecord_def lookupCount_upd)

lemma lookupCount_fold:
  "lookupCount (fold countRecord xs m) k
     = lookupCount m k + length (filter (\<lambda>x. type x \<in> set addressTypes \<and> groupKey x = k) xs)"
proof (induction xs arbitrary: m)
  case Nil
  show ?case by simp
next
  case (Cons x xs)
  show ?case
    by (simp add: Cons lookupCount_countRecord)
qed

lemma lookupCount_empty: "lookupCount Map.empty k = 0"
  by (simp add: lookupCount_def)

lemma sameData_groupSize:
  assumes "type r \<in> set addressTypes"
  shows "lookupCount (fold countRecord records Map.empty) (groupKey r) = groupSize records r"
proof -
  have "filter (\<lambda>x. type x \<in> set addressTypes \<and> groupKey x = groupKey r) records
          = filter (sameGroup r) records"
  proof (rule filter_cong [OF refl])
    fix x
    show "(type x \<in> set addressTypes \<and> groupKey x = groupKey r) = sameGroup r x"
      using assms groupKey_inj [of x r] by (auto simp: sameGroup_def)
  qed
  then show ?thesis
    by (simp add: lookupCount_fold groupSize_def lookupCount_empty)
qed

text \<open>The step of the second loop, in terms of the classification.\<close>

lemma wildcardStep_evidence:
  "wildcardStep subs domain records percent (fold countRecord records Map.empty) r (found, out)
     = (if wildcardEvidence subs records percent r
        then (if groupKey r \<notin> set found
              then (found @ [groupKey r], out @ [r\<lparr>name := ''*.'' @ domain\<rparr>])
              else (found, out))
        else (found, out @ [r]))"
  by (auto simp: wildcardStep_def wildcardEvidence_def Let_def sameData_groupSize typeTotal_def
        not_less)

lemma sameGroup_eq: "sameGroup r x \<Longrightarrow> sameGroup x = sameGroup r"
  by (auto simp: sameGroup_def fun_eq_iff)

lemma evidence_cong:
  "sameGroup r x \<Longrightarrow> wildcardEvidence subs records percent x = wildcardEvidence subs records percent r"
  using sameGroup_eq [of r x]
  by (simp add: wildcardEvidence_def groupSize_def typeTotal_def) (simp add: sameGroup_def)

lemma evidence_rename [simp]:
  "wildcardEvidence subs records percent (x\<lparr>name := n\<rparr>) = wildcardEvidence subs records percent x"
  by (rule evidence_cong) (simp add: sameGroup_def)

lemma sameGroup_rename [simp]: "sameGroup r (x\<lparr>name := n\<rparr>) = sameGroup r x"
  by (simp add: sameGroup_def)

lemma wildcardStep_snd:
  "snd (wildcardStep subs domain records percent m x (found, out)) = out
   \<or> snd (wildcardStep subs domain records percent m x (found, out)) = out @ [x]
   \<or> snd (wildcardStep subs domain records percent m x (found, out))
       = out @ [x\<lparr>name := ''*.'' @ domain\<rparr>]"
  by (simp add: wildcardStep_def Let_def)

lemma wildcard_fold_length:
  "length (snd (fold (wildcardStep subs domain records percent m) xs (found, out)))
     \<le> length out + length xs"
proof (induction xs arbitrary: found out)
  case Nil
  show ?case by simp
next
  case (Cons x xs)
  obtain found' out' where
    st: "wildcardStep subs domain records percent m x (found, out) = (found', out')"
    by (cases "wildcardStep subs domain records percent m x (found, out)")
  have len: "length out' \<le> Suc (length out)"
    using wildcardStep_snd [of subs domain records percent m x found out] st by auto
  have "length (snd (fold (wildcardStep subs domain records percent m) xs (found', out')))
          \<le> length out' + length xs"
    by (rule Cons)
  then show ?case using st len by simp
qed

lemma wildcard_fold_origin:
  assumes "r' \<in> set (snd (fold (wildcardStep subs domain records percent m) xs (found, out)))"
  shows "r' \<in> set out \<or> (\<exists>r\<in>set xs. r' = r \<or> r' = r\<lparr>name := ''*.'' @ domain\<rparr>)"
  using assms
proof (induction xs arbitrary: found out)
  case Nil
  then show ?case by simp
next
  case (Cons x xs)
  obtain found' out' where
    st: "wildcardStep subs domain records percent m x (found, out) = (found', out')"
    by (cases "wildcardStep subs domain records percent m x (found, out)")
  have sub: "set out' \<subseteq> set out \<union> {x, x\<lparr>name := ''*.'' @ domain\<rparr>}"
    using wildcardStep_snd [of subs domain records percent m x found out] st by auto
  have "r' \<in> set (snd (fold (wildcardStep subs domain records percent m) xs (found', out')))"
    using Cons.prems st by simp
  then have "r' \<in> set out' \<or> (\<exists>r\<in>set xs. r' = r \<or> r' = r\<lparr>name := ''*.'' @ domain\<rparr>)"
    by (rule Cons.IH)
  then show ?case using sub by auto
qed

lemma wildcard_fold_pass:
  "filter (\<lambda>r. \<not> wildcardEvidence subs records percent r)
       (snd (fold (wildcardStep subs domain records percent (fold countRecord records Map.empty))
               xs (found, out)))
     = filter (\<lambda>r. \<not> wildcardEvidence subs records percent r) out
       @ filter (\<lambda>r. \<not> wildcardEvidence subs records percent r) xs"
proof (induction xs arbitrary: found out)
  case Nil
  show ?case by simp
next
  case (Cons x xs)
  show ?case
    by (simp add: wildcardStep_evidence Cons)
qed

lemma wildcard_fold_group:
  assumes "wildcardEvidence subs records percent r"
  shows "filter (sameGroup r)
       (snd (fold (wildcardStep subs domain records percent (fold countRecord records Map.empty))
               xs (found, out)))
     = filter (sameGroup r) out
       @ (if groupKey r \<in> set found then []
          else (case filter (sameGroup r) xs of [] \<Rightarrow> []
                | x0 # _ \<Rightarrow> [x0\<lparr>name := ''*.'' @ domain\<rparr>]))"
proof (induction xs arbitrary: found out)
  case Nil
  show ?case by simp
next
  case (Cons x xs)
  have addr: "type r \<in> set addressTypes"
    using assms by (simp add: wildcardEvidence_def)
  show ?case
  proof (cases "sameGroup r x")
    case True
    then have ev: "wildcardEvidence subs records percent x"
      using assms evidence_cong by blast
    have key: "groupKey x = groupKey r"
      using True by (simp add: groupKey_def sameGroup_def)
    show ?thesis
      using True by (simp add: wildcardStep_evidence Cons ev key)
  next
    case False
    have key: "wildcardEvidence subs records percent x \<Longrightarrow> groupKey x \<noteq> groupKey r"
      using False addr groupKey_inj [of x r] by (auto simp: wildcardEvidence_def)
    show ?thesis
      using False key by (auto simp: wildcardStep_evidence Cons)
  qed
qed

lemmas wildcard_eval = detectWildcardRecords_def wildcardStep_def countRecord_def lookupCount_def
  groupKey_def addressTypes_def Let_def

lemma detect_origin:
  assumes "r' \<in> set (detectWildcardRecords subs domain records percent)"
  shows "\<exists>r\<in>set records. r' = r \<or> r' = r\<lparr>name := ''*.'' @ domain\<rparr>"
  using wildcard_fold_origin [of r' subs domain records percent _ records "[]" "[]"] assms
  by (simp add: detectWildcardRecords_def)

lemma detect_pass:
  "filter (\<lambda>r. \<not> wildcardEvidence subs records percent r)
       (detectWildcardRecords subs domain records percent)
     = filter (\<lambda>r. \<not> wildcardEvidence subs records percent r) records"
  by (simp add: detectWildcardRecords_def wildcard_fold_pass)

lemma detect_group:
  assumes "r \<in> set records" "wildcardEvidence subs records percent r"
  shows "filter (sameGroup r) (detectWildcardRecords subs domain records percent)
           = [(hd (filter (sameGroup r) records))\<lparr>name := ''*.'' @ domain\<rparr>]"
proof -
  have "r \<in> set (filter (sameGroup r) records)"
    using assms(1) by (simp add: sameGroup_def)
  then obtain x0 rest where "filter (sameGroup r) records = x0 # rest"
    by (cases "filter (sameGroup r) records") auto
  then show ?thesis
    by (simp add: detectWildcardRecords_def wildcard_fold_group [OF assms(2)])
qed

lemma detect_all_same:
  assumes same: "\<forall>x\<in>set records. type x = ''A'' \<longrightarrow> data x = ip"
    and some: "\<exists>x\<in>set records. type x = ''A''"
    and pct: "percent \<le> 1"
    and sample: "real (length subs) / 2 \<le> real (length (filter (\<lambda>x. type x = ''A'') records))"
  shows "\<exists>r0\<in>set records. type r0 = ''A'' \<and> data r0 = ip
           \<and> filter (\<lambda>x. type x = ''A'') (detectWildcardRecords subs domain records percent)
               = [r0\<lparr>name := ''*.'' @ domain\<rparr>]"
proof -
  let ?out = "detectWildcardRecords subs domain records percent"
  from some obtain r where r: "r \<in> set records" "type r = ''A''" by blast
  have grp: "filter (sameGroup r) records = filter (\<lambda>x. type x = ''A'') records"
    using same r by (intro filter_cong) (auto simp: sameGroup_def)
  have pos: "0 < length (filter (\<lambda>x. type x = ''A'') records)"
    using r by (auto simp: filter_empty_conv)
  have ev: "wildcardEvidence subs records percent r"
    using r pct sample pos
    by (simp add: wildcardEvidence_def groupSize_def typeTotal_def grp addressTypes_def)
  have out_grp: "filter (\<lambda>x. type x = ''A'') ?out = filter (sameGroup r) ?out"
  proof (rule filter_cong [OF refl])
    fix x assume "x \<in> set ?out"
    then obtain x0 where "x0 \<in> set records" "type x = type x0" "data x = data x0"
      using detect_origin [of x subs domain records percent] by auto
    then show "(type x = ''A'') = sameGroup r x"
      using same r by (auto simp: sameGroup_def)
  qed
  let ?r0 = "hd (filter (sameGroup r) records)"
  have "?r0 \<in> set (filter (sameGroup r) records)"
    using r pos grp by (intro hd_in_set) auto
  then have "?r0 \<in> set records" "type ?r0 = ''A''" "data ?r0 = ip"
    using same r by (auto simp: sameGroup_def)
  moreover have "filter (\<lambda>x. type x = ''A'') ?out = [?r0\<lparr>name := ''*.'' @ domain\<rparr>]"
    using detect_group [OF r(1) ev] out_grp by simp
  ultimately show ?thesis by blast
qed

text \<open>
  C2. With wildcard evidence defined as the claim does (an address-bearing record whose
  group size divided by the number of records of its type is at least the threshold, that
  number being at least half the length of the well-known list), \<open>detectWildcardRecords\<close>
  passes every other record through unchanged and in order, and replaces each group of
  evidence by exactly one record, named \<open>*.domain\<close>, carrying the group's type and data.
  In particular, when all records of type A share one address and the sample size is met,
  the A records of the output are that single synthetic record.
\<close>

theorem detectWildcardRecords_classifies:
  "filter (\<lambda>r. \<not> wildcardEvidence subs records percent r)
       (detectWildcardRecords subs domain records percent)
     = filter (\<lambda>r. \<not> wildcardEvidence subs records percent r) records
   \<and> (\<forall>r\<in>set records. wildcardEvidence subs records percent r \<longrightarrow>
         filter (sameGroup r) (detectWildcardRecords subs domain records percent)
           = [(hd (filter (sameGroup r) records))\<lparr>name := ''*.'' @ domain\<rparr>])
   \<and> ((\<forall>x\<in>set records. type x = ''A'' \<longrightarrow> data x = ip)
        \<and> (\<exists>x\<in>set records. type x = ''A'') \<and> percent \<le> 1
        \<and> real (length subs) / 2 \<le> real (length (filter (\<lambda>x. type x = ''A'') records))
       \<longrightarrow> (\<exists>r0\<in>set records. type r0 = ''A'' \<and> data r0 = ip
              \<and> filter (\<lambda>x. type x = ''A'') (detectWildcardRecords subs domain records percent)
                  = [r0\<lparr>name := ''*.'' @ domain\<rparr>]))"
  using detect_pass [of subs records percent domain] detect_group [of _ records subs percent domain]
    detect_all_same [of records ip percent subs domain]
  by blast

theorem detectWildcardRecords_classifies_witness:
  "(\<lparr>name = ''h1.example.com'', type = ''A'', ttl = Num 300, data = ''192.0.2.1''\<rparr> \<in> set twentyRecords
    \<and> wildcardEvidence [''www'', ''mail''] twentyRecords defaultPercent
         \<lparr>name = ''h1.example.com'', type = ''A'', ttl = Num 300, data = ''192.0.2.1''\<rparr>)
   \<and> (list_all (\<lambda>x. type x = ''A'' \<and> data x = ''192.0.2.1'') twentyRecords
        \<and> (\<exists>x\<in>set twentyRecords. type x = ''A'') \<and> defaultPercent \<le> 1
        \<and> real (length [''www'', ''mail'']) / 2
             \<le> real (length (filter (\<lambda>x. type x = ''A'') twentyRecords)))
   \<and> length (filter (\<lambda>x. type x = ''A'') twentyRecords) = 20
   \<and> filter (\<lambda>x. type x = ''A'')
        (detectWildcardRecords [''www'', ''mail''] ''example.com'' twentyRecords defaultPercent)
       = [\<lparr>name = ''*.example.com'', type = ''A'', ttl = Num 300, data = ''192.0.2.1''\<rparr>]"
proof -
  let ?r = "\<lparr>name = ''h1.example.com'', type = ''A'', ttl = Num 300, data = ''192.0.2.1''\<rparr>"
  have mem: "?r \<in> set twentyRecords"
    by (simp add: twentyRecords_def)
  have ev: "wildcardEvidence [''www'', ''mail''] twentyRecords defaultPercent ?r"
    by (simp add: wildcardEvidence_def groupSize_def typeTotal_def sameGroup_def addressTypes_def
          twentyRecords_def defaultPercent_def)
  have hyp: "(\<forall>x\<in>set twentyRecords. type x = ''A'' \<longrightarrow> data x = ''192.0.2.1'')
        \<and> (\<exists>x\<in>set twentyRecords. type x = ''A'') \<and> defaultPercent \<le> 1
        \<and> real (length [''www'', ''mail'']) / 2
             \<le> real (length (filter (\<lambda>x. type x = ''A'') twentyRecords))"
    by (simp add: twentyRecords_def defaultPercent_def)
  have len: "length (filter (\<lambda>x. type x = ''A'') twentyRecords) = 20"
    by (simp add: twentyRecords_def)
  have grp: "filter (sameGroup ?r)
        (detectWildcardRecords [''www'', ''mail''] ''example.com'' twentyRecords defaultPercent)
       = [(hd (filter (sameGroup ?r) twentyRecords))\<lparr>name := ''*.'' @ ''example.com''\<rparr>]"
    using detectWildcardRecords_classifies
            [of "[''www'', ''mail'']" twentyRecords defaultPercent "''example.com''" "''192.0.2.1''"]
      mem ev by blast
  obtain r0 where r0: "r0 \<in> set twentyRecords" "type r0 = ''A''" "data r0 = ''192.0.2.1''"
      "filter (\<lambda>x. type x = ''A'')
         (detectWildcardRecords [''www'', ''mail''] ''example.com'' twentyRecords defaultPercent)
        = [r0\<lparr>name := ''*.'' @ ''example.com''\<rparr>]"
    using detectWildcardRecords_classifies
            [of "[''www'', ''mail'']" twentyRecords defaultPercent "''example.com''" "''192.0.2.1''"]
      hyp by blast
  have "ttl r0 = Num 300"
    using r0(1) by (auto simp: twentyRecords_def)
  then have "r0\<lparr>name := ''*.'' @ ''example.com''\<rparr>
               = \<lparr>name = ''*.example.com'', type = ''A'', ttl = Num 300, data = ''192.0.2.1''\<rparr>"
    using r0(2,3) by (cases r0) simp
  moreover have "list_all (\<lambda>x. type x = ''A'' \<and> data x = ''192.0.2.1'') twentyRecords"
    by (simp add: twentyRecords_def)
  ultimately show ?thesis using mem ev hyp len r0(4) by simp
qed

text \<open>
  C9. Every record of the output of \<open>detectWildcardRecords\<close> has the ttl, type and data of
  an input record, and its name is that record's name or \<open>*.domain\<close>; the output is no
  longer than the input.
\<close>

theorem detectWildcardRecords_frame:
  "(\<forall>r'\<in>set (detectWildcardRecords subs domain records percent).
      \<exists>r\<in>set records. ttl r' = ttl r \<and> type r' = type r \<and> data r' = data r
        \<and> (name r' = name r \<or> name r' = ''*.'' @ domain))
   \<and> length (detectWildcardRecords subs domain records percent) \<le> length records"
proof
  show "\<forall>r'\<in>set (detectWildcardRecords subs domain records percent).
      \<exists>r\<in>set records. ttl r' = ttl r \<and> type r' = type r \<and> data r' = data r
        \<and> (name r' = name r \<or> name r' = ''*.'' @ domain)"
  proof
    fix r' assume "r' \<in> set (detectWildcardRecords subs domain records percent)"
    then obtain r where "r \<in> set records" "r' = r \<or> r' = r\<lparr>name := ''*.'' @ domain\<rparr>"
      using detect_origin by blast
    then show "\<exists>r\<in>set records. ttl r' = ttl r \<and> type r' = type r \<and> data r' = data r
        \<and> (name r' = name r \<or> name r' = ''*.'' @ domain)"
      by auto
  qed
  show "length (detectWildcardRecords subs domain records percent) \<le> length records"
    using wildcard_fold_length [of subs domain records percent _ records "[]" "[]"]
    by (simp add: detectWildcardRecords_def)
qed

theorem detectWildcardRecords_frame_witness:
  "\<lparr>name = ''*.example.com'', type = ''A'', ttl = Num 300, data = ''192.0.2.1''\<rparr>
     \<in> set (detectWildcardRecords [''www'', ''mail''] ''example.com'' fewRecords defaultPercent)
   \<and> (\<exists>r\<in>set fewRecords. Num 300 = ttl r \<and> ''A'' = type r \<and> ''192.0.2.1'' = data r
         \<and> (''*.example.com'' = name r \<or> ''*.example.com'' = ''*.'' @ ''example.com''))
   \<and> length (detectWildcardRecords [''www'', ''mail''] ''example.com'' fewRecords defaultPercent)
       \<le> length fewRecords"
proof -
  have mem: "\<lparr>name = ''*.example.com'', type = ''A'', ttl = Num 300, data = ''192.0.2.1''\<rparr>
     \<in> set (detectWildcardRecords [''www'', ''mail''] ''example.com'' fewRecords defaultPercent)"
    by (simp add: wildcard_eval fewRecords_def defaultPercent_def)
  show ?thesis
    using detectWildcardRecords_frame
            [of "[''www'', ''mail'']" "''example.com''" fewRecords defaultPercent] mem
    by fastforce
qed

section \<open>The run: what each operation changes\<close>

lemma sendRecord_frame [simp]:
  "subdomainsChecked (sendRecord env d r s) = subdomainsChecked s"
  "subdomainsExtra (sendRecord env d r s) = subdomainsExtra s"
  "runningChecks (sendRecord env d r s) = runningChecks s"
  "closed (sendRecord env d r s) = closed s"
  "pending (sendRecord env d r s) = pending s"
  "issued (sendRecord env d r s) = issued s"
  by (simp_all add: sendRecord_def)

lemma fold_sendRecord_frame [simp]:
  "subdomainsChecked (fold (sendRecord env d) rs s) = subdomainsChecked s"
  "subdomainsExtra (fold (sendRecord env d) rs s) = subdomainsExtra s"
  "runningChecks (fold (sendRecord env d) rs s) = runningChecks s"
  "closed (fold (sendRecord env d) rs s) = closed s"
  "pending (fold (sendRecord env d) rs s) = pending s"
  "issued (fold (sendRecord env d) rs s) = issued s"
  by (induction rs arbitrary: s) simp_all

lemma fresh_distinct:
  "distinct checked \<Longrightarrow> distinct (checked @ fresh checked xs)"
proof (induction xs arbitrary: checked)
  case Nil
  then show ?case by simp
next
  case (Cons x xs)
  show ?case
  proof (cases "x \<noteq> [] \<and> x \<notin> set checked")
    case True
    then have "distinct (checked @ [x])" using Cons.prems by simp
    then have "distinct ((checked @ [x]) @ fresh (checked @ [x]) xs)" by (rule Cons.IH)
    then show ?thesis using True by simp
  next
    case False
    then show ?thesis using Cons by auto
  qed
qed

lemma fresh_nonempty: "[] \<notin> set (fresh checked xs)"
  by (induction xs arbitrary: checked) auto


lemma drain_char:
  "drain d xs s =
     s\<lparr>runningChecks := runningChecks s + int (length (fresh (subdomainsChecked s) xs)),
       subdomainsChecked := subdomainsChecked s @ fresh (subdomainsChecked s) xs,
       subdomainsExtra := [],
       pending := pending s @ map (\<lambda>l. (l @ ''.'' @ d, ''A'', SendRecords))
                                (fresh (subdomainsChecked s) xs),
       issued := issued s @ map (subdomainQuery d) (fresh (subdomainsChecked s) xs)\<rparr>"
proof (induction xs arbitrary: s)
  case Nil
  show ?case by simp
next
  case (Cons x xs)
  show ?case
    by (simp add: Cons issue_def subdomainQuery_def)
qed

lemma reqDone_frame [simp]:
  "recordsHashes (reqDone d s) = recordsHashes s"
  "written (reqDone d s) = written s"
  "accepted (reqDone d s) = accepted s"
  by (simp_all add: reqDone_def Let_def drain_char)

lemma reqDone_busy:
  "runningChecks s \<noteq> 1 \<Longrightarrow> reqDone d s = s\<lparr>runningChecks := runningChecks s - 1\<rparr>"
  by (simp add: reqDone_def Let_def)

lemma reqDone_last:
  assumes "runningChecks s = 1"
  shows "reqDone d s =
     s\<lparr>runningChecks := int (length (fresh (subdomainsChecked s) (subdomainsExtra s))),
       subdomainsChecked := subdomainsChecked s @ fresh (subdomainsChecked s) (subdomainsExtra s),
       subdomainsExtra := [],
       pending := pending s @ map (\<lambda>l. (l @ ''.'' @ d, ''A'', SendRecords))
                                (fresh (subdomainsChecked s) (subdomainsExtra s)),
       issued := issued s @ map (subdomainQuery d) (fresh (subdomainsChecked s) (subdomainsExtra s)),
       closed := (fresh (subdomainsChecked s) (subdomainsExtra s) = [] \<or> closed s)\<rparr>"
  using assms by (simp add: reqDone_def Let_def drain_char)

lemma nsRecord_frame [simp]:
  "subdomainsChecked (nsRecord env d r s) = subdomainsChecked s"
  "runningChecks (nsRecord env d r s) = runningChecks s"
  "closed (nsRecord env d r s) = closed s"
  "pending (nsRecord env d r s) = pending s"
  "issued (nsRecord env d r s) = issued s"
  by (simp_all add: nsRecord_def Let_def)

lemma fold_nsRecord_frame [simp]:
  "subdomainsChecked (fold (nsRecord env d) rs s) = subdomainsChecked s"
  "runningChecks (fold (nsRecord env d) rs s) = runningChecks s"
  "closed (fold (nsRecord env d) rs s) = closed s"
  "pending (fold (nsRecord env d) rs s) = pending s"
  "issued (fold (nsRecord env d) rs s) = issued s"
  by (induction rs arbitrary: s) simp_all

lemma callback_later:
  "h \<noteq> NsHandler \<Longrightarrow>
   callback env d h records s =
     reqDone d (fold (sendRecord env d) records
                  (s\<lparr>subdomainsExtra := extrasAfter d h records (subdomainsExtra s)\<rparr>))"
  by (cases h) (simp_all add: callback_def extrasAfter_def sendRecords_def)

lemma callback_ns:
  "callback env d NsHandler records s =
     (if records \<noteq> [] then fold issue (rootQueries d) (fold (nsRecord env d) records s)
      else s\<lparr>closed := True\<rparr>)"
  by (simp add: callback_def)

lemma length_remove_nth: "i < length xs \<Longrightarrow> length (take i xs @ drop (Suc i) xs) = length xs - 1"
  by simp

lemma set_remove_nth: "set (take i xs @ drop (Suc i) xs) \<subseteq> set xs"
  using set_take_subset [of i xs] set_drop_subset [of "Suc i" xs] by auto

lemma start_fields [simp]:
  "pending (start env options d) = [(d, ''NS'', NsHandler)]"
  "issued (start env options d) = [(d, ''NS'')]"
  "runningChecks (start env options d) = 5"
  "closed (start env options d) = False"
  "written (start env options d) = []"
  "recordsHashes (start env options d) = []"
  "subdomainsChecked (start env options d) = []"
  "subdomainsExtra (start env options d) = subdomains options @ subdomainsRecords env"
  "accepted (start env options d) = []"
  by (simp_all add: start_def issue_def)

lemma roots_fields [simp]:
  "pending (fold issue (rootQueries d) s) = pending s @ rootQueries d"
  "issued (fold issue (rootQueries d) s) = issued s @ map queryKey (rootQueries d)"
  "runningChecks (fold issue (rootQueries d) s) = runningChecks s"
  "closed (fold issue (rootQueries d) s) = closed s"
  "written (fold issue (rootQueries d) s) = written s"
  "recordsHashes (fold issue (rootQueries d) s) = recordsHashes s"
  "subdomainsChecked (fold issue (rootQueries d) s) = subdomainsChecked s"
  "subdomainsExtra (fold issue (rootQueries d) s) = subdomainsExtra s"
  "accepted (fold issue (rootQueries d) s) = accepted s"
  by (simp_all add: rootQueries_def issue_def queryKey_def)

lemma step_start:
  "step env options d (start env options d) i =
     (if i = 0 then
        (case getDnsRecords env d ''NS'' (resolver options) of
           Inl e \<Rightarrow> (start env options d)\<lparr>pending := []\<rparr>
         | Inr records \<Rightarrow>
             if records \<noteq> []
             then fold issue (rootQueries d)
                    (fold (nsRecord env d) records ((start env options d)\<lparr>pending := []\<rparr>))
             else (start env options d)\<lparr>pending := [], closed := True\<rparr>)
      else start env options d)"
  by (simp add: step_def settle_def callback_ns split: sum.splits)

lemma step_idle: "pending s = [] \<Longrightarrow> step env options d s i = s"
  by (simp add: step_def)

lemma phase1_after_ns:
  "records \<noteq> [] \<Longrightarrow>
   phase1 d (fold issue (rootQueries d)
               (fold (nsRecord env d) records ((start env options d)\<lparr>pending := []\<rparr>)))"
  by (simp add: phase1_def) (simp add: rootQueries_def)

lemma phase1_step_cases [consumes 2, case_names fail busy last]:
  assumes "phase1 d s" "i < length (pending s)"
  obtains
    (fail) nm ty h e where "pending s ! i = (nm, ty, h)" "h \<noteq> NsHandler"
      "getDnsRecords env nm ty (resolver options) = Inl e"
      "step env options d s i = s\<lparr>pending := take i (pending s) @ drop (Suc i) (pending s)\<rparr>"
  | (busy) nm ty h records where "pending s ! i = (nm, ty, h)" "h \<noteq> NsHandler"
      "getDnsRecords env nm ty (resolver options) = Inr records"
      "runningChecks s \<noteq> 1" "1 \<le> runningChecks s"
      "step env options d s i =
         (fold (sendRecord env d) records
            (s\<lparr>pending := take i (pending s) @ drop (Suc i) (pending s),
               subdomainsExtra := extrasAfter d h records (subdomainsExtra s)\<rparr>))
         \<lparr>runningChecks := runningChecks s - 1\<rparr>"
  | (last) nm ty h records where "pending s = [(nm, ty, h)]" "i = 0" "h \<noteq> NsHandler"
      "getDnsRecords env nm ty (resolver options) = Inr records"
      "runningChecks s = 1"
      "step env options d s i =
         (fold (sendRecord env d) records
            (s\<lparr>pending := [],
               subdomainsExtra := extrasAfter d h records (subdomainsExtra s)\<rparr>))
         \<lparr>runningChecks :=
            int (length (fresh (subdomainsChecked s) (extrasAfter d h records (subdomainsExtra s)))),
          subdomainsChecked :=
            subdomainsChecked s @ fresh (subdomainsChecked s) (extrasAfter d h records (subdomainsExtra s)),
          subdomainsExtra := [],
          pending := map (\<lambda>l. (l @ ''.'' @ d, ''A'', SendRecords))
                       (fresh (subdomainsChecked s) (extrasAfter d h records (subdomainsExtra s))),
          issued := issued s @ map (subdomainQuery d)
                       (fresh (subdomainsChecked s) (extrasAfter d h records (subdomainsExtra s))),
          closed := (fresh (subdomainsChecked s) (extrasAfter d h records (subdomainsExtra s)) = [])\<rparr>"
proof -
  obtain nm ty h where q: "pending s ! i = (nm, ty, h)"
    by (cases "pending s ! i")
  have h: "h \<noteq> NsHandler"
    using assms q nth_mem [of i "pending s"] by (auto simp: phase1_def)
  have rc: "1 \<le> runningChecks s"
    using assms by (simp add: phase1_def)
  then have open_: "\<not> closed s"
    using assms(1) by (simp add: phase1_def)
  let ?s = "s\<lparr>pending := take i (pending s) @ drop (Suc i) (pending s)\<rparr>"
  show thesis
  proof (cases "getDnsRecords env nm ty (resolver options)")
    case (Inl e)
    then have "step env options d s i = ?s"
      using assms(2) q by (simp add: step_def settle_def)
    then show thesis using fail [OF q h Inl] by simp
  next
    case (Inr records)
    let ?s' = "fold (sendRecord env d) records
                 (?s\<lparr>subdomainsExtra := extrasAfter d h records (subdomainsExtra ?s)\<rparr>)"
    have st: "step env options d s i = reqDone d ?s'"
      using assms(2) q Inr h by (simp add: step_def settle_def callback_later)
    show thesis
    proof (cases "runningChecks s = 1")
      case False
      then have "reqDone d ?s' = ?s'\<lparr>runningChecks := runningChecks s - 1\<rparr>"
        by (simp add: reqDone_busy)
      then show thesis using busy [OF q h Inr False rc] st by simp
    next
      case True
      then have "length (pending s) = 1"
        using assms by (simp add: phase1_def)
      then have p: "pending s = [(nm, ty, h)]" and i0: "i = 0"
        using q assms(2) by (cases "pending s"; simp)+
      have "reqDone d ?s' =
         (fold (sendRecord env d) records
            (s\<lparr>pending := [],
               subdomainsExtra := extrasAfter d h records (subdomainsExtra s)\<rparr>))
         \<lparr>runningChecks :=
            int (length (fresh (subdomainsChecked s) (extrasAfter d h records (subdomainsExtra s)))),
          subdomainsChecked :=
            subdomainsChecked s @ fresh (subdomainsChecked s) (extrasAfter d h records (subdomainsExtra s)),
          subdomainsExtra := [],
          pending := map (\<lambda>l. (l @ ''.'' @ d, ''A'', SendRecords))
                       (fresh (subdomainsChecked s) (extrasAfter d h records (subdomainsExtra s))),
          issued := issued s @ map (subdomainQuery d)
                       (fresh (subdomainsChecked s) (extrasAfter d h records (subdomainsExtra s))),
          closed := (fresh (subdomainsChecked s) (extrasAfter d h records (subdomainsExtra s)) = [])\<rparr>"
        using True p i0 open_ by (simp add: reqDone_last)
      then show thesis using last [OF p i0 h Inr True] st by simp
    qed
  qed
qed

lemma phase1_step:
  assumes inv: "phase1 d s"
  shows "phase1 d (step env options d s i)"
proof (cases "i < length (pending s)")
  case False
  then show ?thesis using inv by (simp add: step_def)
next
  case True
  from inv True show ?thesis
  proof (cases rule: phase1_step_cases [where env = env and options = options])
    case (fail nm ty h e)
    then show ?thesis
      using inv True set_remove_nth [of i "pending s"] by (auto simp: phase1_def)
  next
    case (busy nm ty h records)
    then show ?thesis
      using inv True set_remove_nth [of i "pending s"] by (auto simp: phase1_def)
  next
    case (last nm ty h records)
    have "distinct (subdomainsChecked s
            @ fresh (subdomainsChecked s) (extrasAfter d h records (subdomainsExtra s)))"
      using inv fresh_distinct by (simp add: phase1_def)
    then show ?thesis
      using inv last fresh_nonempty [of "subdomainsChecked s"
          "extrasAfter d h records (subdomainsExtra s)"]
      by (simp add: phase1_def)
  qed
qed

lemma structured_step:
  assumes base: "\<And>records. records \<noteq> [] \<Longrightarrow>
        getDnsRecords env d ''NS'' (resolver options) = Inr records \<Longrightarrow>
        Q (fold issue (rootQueries d)
             (fold (nsRecord env d) records ((start env options d)\<lparr>pending := []\<rparr>)))"
    and later: "\<And>s i. phase1 d s \<Longrightarrow> Q s \<Longrightarrow> i < length (pending s) \<Longrightarrow>
        Q (step env options d s i)"
    and inv: "structured Q env options d s"
  shows "structured Q env options d (step env options d s i)"
proof -
  consider "s = start env options d"
    | "pending s = []"
    | "phase1 d s" "Q s" "pending s \<noteq> []"
        "\<exists>records. records \<noteq> [] \<and> getDnsRecords env d ''NS'' (resolver options) = Inr records"
    using inv by (auto simp: structured_def)
  then show ?thesis
  proof cases
    case 1
    show ?thesis
    proof (cases "i = 0")
      case False
      then show ?thesis using 1 by (simp add: step_start structured_def)
    next
      case True
      show ?thesis
      proof (cases "getDnsRecords env d ''NS'' (resolver options)")
        case (Inl e)
        have "step env options d s i = (start env options d)\<lparr>pending := []\<rparr>"
          using 1 True Inl by (simp add: step_start)
        also have "\<dots> = (start env options d)\<lparr>pending := [], closed := False\<rparr>"
          by (simp add: start_def issue_def)
        finally have "step env options d s i
                        = (start env options d)\<lparr>pending := [], closed := False\<rparr>" .
        then show ?thesis using Inl unfolding structured_def by auto
      next
        case (Inr records)
        show ?thesis
        proof (cases "records = []")
          case True
          then have "step env options d s i = (start env options d)\<lparr>pending := [], closed := True\<rparr>"
            using 1 \<open>i = 0\<close> Inr by (simp add: step_start)
          then show ?thesis using True Inr unfolding structured_def by auto
        next
          case False
          then have "step env options d s i
                       = fold issue (rootQueries d)
                           (fold (nsRecord env d) records ((start env options d)\<lparr>pending := []\<rparr>))"
            using 1 \<open>i = 0\<close> Inr by (simp add: step_start)
          then show ?thesis
            using phase1_after_ns [OF False, of d env options] base [OF False Inr] False Inr
            by (auto simp: structured_def)
        qed
      qed
    qed
  next
    case 2
    then show ?thesis using inv by (simp add: step_idle)
  next
    case 3
    show ?thesis
    proof (cases "i < length (pending s)")
      case True
      then show ?thesis
        using 3 phase1_step [of d s env options i] later by (simp add: structured_def)
    next
      case False
      then show ?thesis using inv by (simp add: step_def)
    qed
  qed
qed

lemma run_snoc:
  "run env options domain (sched @ [i])
     = step env options (toASCII env domain) (run env options domain sched) i"
  by (simp add: run_def)

lemma run_structured:
  assumes "\<And>records. records \<noteq> [] \<Longrightarrow>
        getDnsRecords env (toASCII env domain) ''NS'' (resolver options) = Inr records \<Longrightarrow>
        Q (fold issue (rootQueries (toASCII env domain))
             (fold (nsRecord env (toASCII env domain)) records
                ((start env options (toASCII env domain))\<lparr>pending := []\<rparr>)))"
    and "\<And>s i. phase1 (toASCII env domain) s \<Longrightarrow> Q s \<Longrightarrow> i < length (pending s) \<Longrightarrow>
        Q (step env options (toASCII env domain) s i)"
  shows "structured Q env options (toASCII env domain) (run env options domain sched)"
proof (induction sched rule: rev_induct)
  case Nil
  show ?case by (simp add: run_def structured_def)
next
  case (snoc i sched)
  then show ?case using assms by (simp add: run_snoc structured_step)
qed

lemma run_phase1:
  "structured (\<lambda>s. True) env options (toASCII env domain) (run env options domain sched)"
  by (rule run_structured) simp_all

section \<open>Candidates and queries\<close>

lemma subdomainQuery_inj: "inj (subdomainQuery d)"
  by (rule injI) (simp add: subdomainQuery_def)

lemma subdomainQuery_not_root: "subdomainQuery d l \<notin> set (map queryKey (rootQueries d))"
proof -
  have "l @ ''.'' @ d \<noteq> d"
  proof
    assume "l @ ''.'' @ d = d"
    then have "length (l @ ''.'' @ d) = length d" by simp
    then show False by simp
  qed
  then show ?thesis
    by (auto simp: subdomainQuery_def rootQueries_def queryKey_def)
qed

lemma phase1_issued_distinct:
  assumes "phase1 d s"
  shows "distinct (issued s)"
proof -
  have roots: "distinct (map queryKey (rootQueries d))"
    by (simp add: rootQueries_def queryKey_def)
  have subs: "distinct (map (subdomainQuery d) (subdomainsChecked s))"
    using assms inj_on_subset [OF subdomainQuery_inj [of d] subset_UNIV]
    by (simp add: phase1_def distinct_map)
  have ns_roots: "(d, ''NS'') \<notin> set (map queryKey (rootQueries d))"
    by (simp add: rootQueries_def queryKey_def)
  have ns_subs: "(d, ''NS'') \<notin> set (map (subdomainQuery d) (subdomainsChecked s))"
    by (auto simp: subdomainQuery_def)
  have disj: "set (map queryKey (rootQueries d))
                \<inter> set (map (subdomainQuery d) (subdomainsChecked s)) = {}"
  proof -
    have "k \<notin> set (map queryKey (rootQueries d))"
      if "k \<in> set (map (subdomainQuery d) (subdomainsChecked s))" for k
    proof -
      from that obtain l where "k = subdomainQuery d l" by auto
      then show ?thesis using subdomainQuery_not_root by simp
    qed
    then show ?thesis by blast
  qed
  have "issued s = (d, ''NS'') # map queryKey (rootQueries d)
                     @ map (subdomainQuery d) (subdomainsChecked s)"
    using assms by (simp add: phase1_def)
  then show ?thesis
    using roots subs ns_roots ns_subs disj by (simp del: set_map)
qed

lemma structured_cases [consumes 1, case_names initial ns_failed ns_empty later]:
  assumes "structured Q env options d s"
  obtains
    (initial) "s = start env options d"
  | (ns_failed) e where "s = (start env options d)\<lparr>pending := [], closed := False\<rparr>"
      "getDnsRecords env d ''NS'' (resolver options) = Inl e"
  | (ns_empty) "s = (start env options d)\<lparr>pending := [], closed := True\<rparr>"
      "getDnsRecords env d ''NS'' (resolver options) = Inr []"
  | (later) records where "phase1 d s" "Q s" "records \<noteq> []"
      "getDnsRecords env d ''NS'' (resolver options) = Inr records"
  using assms unfolding structured_def by blast

lemma structured_distinct:
  assumes "structured Q env options d s"
  shows "distinct (subdomainsChecked s) \<and> distinct (issued s)"
  using assms
proof (cases rule: structured_cases)
  case initial then show ?thesis by simp
next
  case ns_failed then show ?thesis by simp
next
  case ns_empty then show ?thesis by simp
next
  case later
  then show ?thesis using phase1_issued_distinct [of d s] by (simp add: phase1_def)
qed

lemma distinct_count_le_one: "distinct xs \<Longrightarrow> count_list xs x \<le> 1"
  by (induction xs) (auto simp: count_list_0_iff)

lemma addSubdomain_cases:
  "addSubdomain d v extra = extra
   \<or> (\<exists>l. l \<notin> set extra \<and> addSubdomain d v extra = extra @ [l])"
  by (simp add: addSubdomain_def Let_def)

lemma addSubdomain_count:
  "count_list (addSubdomain d v extra) l \<le> max 1 (count_list extra l)"
proof -
  consider "addSubdomain d v extra = extra"
    | l' where "l' \<notin> set extra" "addSubdomain d v extra = extra @ [l']"
    using addSubdomain_cases [of d v extra] by blast
  then show ?thesis
  proof cases
    case 1 then show ?thesis by simp
  next
    case 2
    then show ?thesis by (cases "l = l'") (simp_all add: count_list_0_iff)
  qed
qed

lemma bound_addSubdomain:
  "1 \<le> b \<Longrightarrow> count_list extra l \<le> b \<Longrightarrow> count_list (addSubdomain d v extra) l \<le> b"
  using addSubdomain_count [of d v extra l] by arith

lemma bound_mxRecord:
  "1 \<le> b \<Longrightarrow> count_list extra l \<le> b \<Longrightarrow> count_list (mxRecord d r extra) l \<le> b"
  by (simp add: mxRecord_def Let_def bound_addSubdomain)

lemma bound_spfToken:
  "1 \<le> b \<Longrightarrow> count_list extra l \<le> b \<Longrightarrow> count_list (spfToken d spf extra) l \<le> b"
  by (simp add: spfToken_def bound_addSubdomain)

lemma bound_fold:
  assumes "\<And>x e. count_list e l \<le> b \<Longrightarrow> count_list (f x e) l \<le> (b::nat)"
  shows "count_list extra l \<le> b \<Longrightarrow> count_list (fold f xs extra) l \<le> b"
  by (induction xs arbitrary: extra) (simp_all add: assms)

lemma bound_txtRecord:
  assumes "1 \<le> b" "count_list extra l \<le> b"
  shows "count_list (txtRecord d r extra) l \<le> b"
proof -
  have "count_list (fold (spfToken d) xs extra) l \<le> b" for xs
  proof (rule bound_fold)
    show "count_list (spfToken d x e) l \<le> b" if "count_list e l \<le> b" for x e
      using assms(1) that by (rule bound_spfToken)
    show "count_list extra l \<le> b"
      by (rule assms(2))
  qed
  then show ?thesis using assms(2) by (simp add: txtRecord_def)
qed

lemma bound_extrasAfter:
  assumes "1 \<le> b" "count_list extra l \<le> b"
  shows "count_list (extrasAfter d h records extra) l \<le> b"
proof (cases h)
  case MxHandler
  have "count_list (fold (mxRecord d) records extra) l \<le> b"
  proof (rule bound_fold)
    show "count_list (mxRecord d x e) l \<le> b" if "count_list e l \<le> b" for x e
      using assms(1) that by (rule bound_mxRecord)
    show "count_list extra l \<le> b"
      by (rule assms(2))
  qed
  then show ?thesis using MxHandler by (simp add: extrasAfter_def)
next
  case TxtHandler
  have "count_list (fold (txtRecord d) records extra) l \<le> b"
  proof (rule bound_fold)
    show "count_list (txtRecord d x e) l \<le> b" if "count_list e l \<le> b" for x e
      using assms(1) that by (rule bound_txtRecord)
    show "count_list extra l \<le> b"
      by (rule assms(2))
  qed
  then show ?thesis using TxtHandler by (simp add: extrasAfter_def)
next
  case NsHandler
  then show ?thesis using assms(2) by (simp add: extrasAfter_def)
next
  case SendRecords
  then show ?thesis using assms(2) by (simp add: extrasAfter_def)
qed

lemma bound_nsRecord:
  "1 \<le> b \<Longrightarrow> count_list (subdomainsExtra s) l \<le> b
   \<Longrightarrow> count_list (subdomainsExtra (nsRecord env d r s)) l \<le> b"
  by (simp add: nsRecord_def Let_def bound_addSubdomain)

lemma bound_fold_nsRecord:
  "1 \<le> b \<Longrightarrow> count_list (subdomainsExtra s) l \<le> b
   \<Longrightarrow> count_list (subdomainsExtra (fold (nsRecord env d) rs s)) l \<le> b"
  by (induction rs arbitrary: s) (simp_all add: bound_nsRecord)

lemma bound_step:
  assumes p1: "phase1 d s" and i: "i < length (pending s)"
    and b1: "1 \<le> b" and b: "count_list (subdomainsExtra s) l \<le> b"
  shows "count_list (subdomainsExtra (step env options d s i)) l \<le> b"
  using p1 i
proof (cases rule: phase1_step_cases [where env = env and options = options])
  case (fail nm ty h e)
  then show ?thesis using b by simp
next
  case (busy nm ty h records)
  then show ?thesis using bound_extrasAfter [OF b1 b] by simp
next
  case (last nm ty h records)
  then show ?thesis by simp
qed

lemma run_bound:
  "count_list (subdomainsExtra (run env options domain sched)) l
     \<le> max 1 (count_list (subdomains options @ subdomainsRecords env) l)"
proof -
  define b where "b = max 1 (count_list (subdomains options @ subdomainsRecords env) l)"
  have b1: "1 \<le> b" and seeds: "count_list (subdomains options @ subdomainsRecords env) l \<le> b"
    by (simp_all add: b_def)
  have "structured (\<lambda>s. count_list (subdomainsExtra s) l \<le> b) env options
          (toASCII env domain) (run env options domain sched)"
  proof (rule run_structured)
    fix records :: "'a DnsRecord list"
    show "count_list (subdomainsExtra (fold issue (rootQueries (toASCII env domain))
             (fold (nsRecord env (toASCII env domain)) records
                ((start env options (toASCII env domain))\<lparr>pending := []\<rparr>)))) l \<le> b"
      using seeds by (simp add: bound_fold_nsRecord [OF b1])
  next
    fix s :: "'a run_state" and i
    assume "phase1 (toASCII env domain) s" "count_list (subdomainsExtra s) l \<le> b"
      "i < length (pending s)"
    then show "count_list (subdomainsExtra (step env options (toASCII env domain) s i)) l \<le> b"
      using b1 by (intro bound_step) simp_all
  qed
  then have "count_list (subdomainsExtra (run env options domain sched)) l \<le> b"
    using seeds by (cases rule: structured_cases) simp_all
  then show ?thesis by (simp only: b_def)
qed

text \<open>
  C6, as amended. In every run the labels marked as checked are pairwise distinct and no
  query is issued twice, so at most one A query goes out for any \<open>label.domain\<close>. An
  inferred candidate is appended to the queue only if the queue does not hold it yet. The
  queue itself starts as the caller's extra labels followed by the static list, as they
  are: in every state of a run a label occurs in the queue at most once, or at most as
  often as it occurs among these seeds.
\<close>

theorem candidate_queued_once:
  "distinct (subdomainsChecked (run env options domain sched))
   \<and> distinct (issued (run env options domain sched))
   \<and> count_list (issued (run env options domain sched)) (label @ ''.'' @ toASCII env domain, ''A'') \<le> 1
   \<and> count_list (addSubdomain d v extra) label \<le> max 1 (count_list extra label)
   \<and> count_list (subdomainsExtra (run env options domain sched)) label
       \<le> max 1 (count_list (subdomains options @ subdomainsRecords env) label)"
proof -
  have d: "distinct (subdomainsChecked (run env options domain sched))
           \<and> distinct (issued (run env options domain sched))"
    using run_phase1 [of env options domain sched] by (rule structured_distinct)
  have c: "count_list (issued (run env options domain sched))
               (label @ ''.'' @ toASCII env domain, ''A'') \<le> 1"
    by (rule distinct_count_le_one) (simp add: d)
  have a: "count_list (addSubdomain d v extra) label \<le> max 1 (count_list extra label)"
    by (rule addSubdomain_count)
  have q: "count_list (subdomainsExtra (run env options domain sched)) label
             \<le> max 1 (count_list (subdomains options @ subdomainsRecords env) label)"
    by (rule run_bound)
  show ?thesis
    by (intro conjI) (simp_all only: d c a q)
qed

theorem candidate_queued_once_witness:
  "distinct (subdomainsChecked (run exampleEnv defaultOptions ''example.com'' [0, 0, 0, 0, 0, 0, 0]))
   \<and> distinct (issued (run exampleEnv defaultOptions ''example.com'' [0, 0, 0, 0, 0, 0, 0]))
   \<and> count_list (issued (run exampleEnv defaultOptions ''example.com'' [0, 0, 0, 0, 0, 0, 0]))
         (''mail'' @ ''.'' @ toASCII exampleEnv ''example.com'', ''A'') \<le> 1
   \<and> count_list (addSubdomain ''example.com'' ''mail.example.com.'' [''www'', ''mail'']) ''mail''
       \<le> max 1 (count_list [''www'', ''mail''] ''mail'')
   \<and> count_list (subdomainsExtra (run exampleEnv defaultOptions ''example.com'' [0, 0, 0, 0, 0, 0, 0]))
         ''mail''
       \<le> max 1 (count_list (subdomains (defaultOptions :: number GetAllDnsRecordsOptions)
                                 @ subdomainsRecords exampleEnv) ''mail'')"
  by (rule candidate_queued_once)

section \<open>Completion of a run\<close>

lemma getAllDnsRecords_run:
  "getAllDnsRecords env domain options sched =
     (if \<not> isDomain env domain then Rejected (InvalidDomain domain)
      else case readChunks env (written (run env options domain sched)) of
             Inl e \<Rightarrow> Rejected e
           | Inr records \<Rightarrow>
               if closed (run env options domain sched)
               then Resolved (detectWildcardRecords (subdomainsRecords env) domain records
                                defaultPercent)
               else Pending)"
  unfolding getAllDnsRecords_def getAllDnsRecordsStream_def run_def Let_def by simp

lemma detect_Nil [simp]: "detectWildcardRecords subs domain [] percent = []"
  by (simp add: detectWildcardRecords_def)

lemma foldl_step_idle: "pending s = [] \<Longrightarrow> foldl (step env options d) s sched = s"
  by (induction sched) (simp_all add: step_idle)

lemma foldl_step_waiting:
  "0 \<notin> set sched \<Longrightarrow>
   foldl (step env options d) (start env options d) sched = start env options d"
  by (induction sched) (simp_all add: step_start)

lemma run_no_delegation:
  assumes ns: "getDnsRecords env (toASCII env domain) ''NS'' (resolver options) = Inr []"
    and settled: "0 \<in> set sched"
  shows "run env options domain sched
           = (start env options (toASCII env domain))\<lparr>pending := [], closed := True\<rparr>"
proof -
  obtain pre post where sched: "sched = pre @ 0 # post" and pre: "0 \<notin> set pre"
    using settled split_list_first [of 0 sched] by blast
  let ?d = "toASCII env domain"
  have "foldl (step env options ?d) (start env options ?d) pre = start env options ?d"
    using pre by (rule foldl_step_waiting)
  moreover have "step env options ?d (start env options ?d) 0
                   = (start env options ?d)\<lparr>pending := [], closed := True\<rparr>"
    using ns by (simp add: step_start)
  ultimately show ?thesis
    by (simp add: run_def sched foldl_step_idle)
qed

text \<open>
  C5. For a valid domain whose bootstrap NS query returns no record, \<open>getAllDnsRecords\<close>
  resolves with the empty list as soon as that query has settled; the bootstrap is the
  only query ever issued and none is left in flight.
\<close>

theorem no_delegation_resolves_empty:
  assumes "isDomain env domain"
    and "getDnsRecords env (toASCII env domain) ''NS'' (resolver options) = Inr []"
    and "0 \<in> set sched"
  shows "getAllDnsRecords env domain options sched = Resolved []
         \<and> issued (run env options domain sched) = [(toASCII env domain, ''NS'')]
         \<and> pending (run env options domain sched) = []"
  using assms(1) by (simp add: getAllDnsRecords_run run_no_delegation [OF assms(2,3)])

theorem no_delegation_resolves_empty_witness:
  "isDomain plainEnv ''example.com''
   \<and> getDnsRecords plainEnv (toASCII plainEnv ''example.com'') ''NS''
         (resolver (optionsWith emptyResolver)) = Inr []
   \<and> 0 \<in> set [0::nat]
   \<and> getAllDnsRecords plainEnv ''example.com'' (optionsWith emptyResolver) [0] = Resolved []
   \<and> issued (run plainEnv (optionsWith emptyResolver) ''example.com'' [0])
       = [(toASCII plainEnv ''example.com'', ''NS'')]
   \<and> pending (run plainEnv (optionsWith emptyResolver) ''example.com'' [0]) = []"
proof -
  have a: "isDomain plainEnv ''example.com''"
    by (simp add: plainEnv_def)
  have b: "getDnsRecords plainEnv (toASCII plainEnv ''example.com'') ''NS''
             (resolver (optionsWith emptyResolver)) = Inr []"
    by (simp add: getDnsRecords_def plainEnv_def optionsWith_def emptyResolver_def)
  have c: "0 \<in> set [0::nat]" by simp
  show ?thesis
    using no_delegation_resolves_empty [OF a b c] a b c by blast
qed

section \<open>The counter and failing queries\<close>

lemma filter_remove_nth_drop:
  assumes "i < length xs" "\<not> P (xs ! i)"
  shows "filter P (take i xs @ drop (Suc i) xs) = filter P xs"
proof -
  have "filter P xs = filter P (take i xs @ xs ! i # drop (Suc i) xs)"
    using assms(1) by (simp add: id_take_nth_drop [symmetric])
  then show ?thesis using assms(2) by simp
qed

lemma filter_remove_nth_keep:
  assumes "i < length xs" "P (xs ! i)"
  shows "Suc (length (filter P (take i xs @ drop (Suc i) xs))) = length (filter P xs)"
proof -
  have "filter P xs = filter P (take i xs @ xs ! i # drop (Suc i) xs)"
    using assms(1) by (simp add: id_take_nth_drop [symmetric])
  then show ?thesis using assms(2) by simp
qed

lemma filter_split_length:
  "length (filter (\<lambda>x. \<not> P (f x)) xs) + length (filter P (map f xs)) = length xs"
  by (induction xs) simp_all

lemma failing_Inl: "getDnsRecords env nm ty (resolver options) = Inl e \<Longrightarrow> failing env options (nm, ty)"
  by (simp add: failing_def)

lemma failing_Inr: "getDnsRecords env nm ty (resolver options) = Inr r \<Longrightarrow> \<not> failing env options (nm, ty)"
  by (simp add: failing_def)

lemma counted_after_ns:
  "counted env options (fold issue (rootQueries d)
      (fold (nsRecord env d) records ((start env options d)\<lparr>pending := []\<rparr>)))"
proof -
  have "length (filter (\<lambda>q. \<not> failing env options (queryKey q)) (rootQueries d))
          + length (filter (failing env options) (map queryKey (rootQueries d)))
        = length (rootQueries d)"
    by (rule filter_split_length)
  moreover have "length (rootQueries d) = 5"
    by (simp add: rootQueries_def)
  ultimately show ?thesis
    by (simp add: counted_def)
qed

lemma queryKey_sub: "queryKey (l @ ''.'' @ d, ''A'', SendRecords) = subdomainQuery d l"
  by (simp add: queryKey_def subdomainQuery_def)

lemma counted_step:
  assumes p1: "phase1 d s" and c: "counted env options s" and i: "i < length (pending s)"
  shows "counted env options (step env options d s i)"
  using p1 i
proof (cases rule: phase1_step_cases [where env = env and options = options])
  case (fail nm ty h e)
  have "failing env options (queryKey (pending s ! i))"
    using fail(1,3) by (simp add: queryKey_def failing_Inl)
  then have "filter (\<lambda>q. \<not> failing env options (queryKey q))
               (take i (pending s) @ drop (Suc i) (pending s))
             = filter (\<lambda>q. \<not> failing env options (queryKey q)) (pending s)"
    using i by (intro filter_remove_nth_drop) simp_all
  then show ?thesis using c fail(4) by (simp add: counted_def)
next
  case (busy nm ty h records)
  have "\<not> failing env options (queryKey (pending s ! i))"
    using busy(1,3) by (simp add: queryKey_def failing_Inr)
  then have "Suc (length (filter (\<lambda>q. \<not> failing env options (queryKey q))
                    (take i (pending s) @ drop (Suc i) (pending s))))
             = length (filter (\<lambda>q. \<not> failing env options (queryKey q)) (pending s))"
    using i by (intro filter_remove_nth_keep) simp_all
  then show ?thesis using c busy(6) by (simp add: counted_def)
next
  case (last nm ty h records)
  let ?new = "fresh (subdomainsChecked s) (extrasAfter d h records (subdomainsExtra s))"
  have ok: "\<not> failing env options (queryKey (nm, ty, h))"
    using last(4) by (simp add: queryKey_def failing_Inr)
  have none: "filter (failing env options) (tl (issued s)) = []"
    using c last(1,5) ok by (simp add: counted_def)
  have ne: "issued s \<noteq> []"
    using p1 by (simp add: phase1_def)
  have pend: "filter (\<lambda>q. \<not> failing env options (queryKey q))
                (map (\<lambda>l. (l @ ''.'' @ d, ''A'', SendRecords)) ?new)
              = map (\<lambda>l. (l @ ''.'' @ d, ''A'', SendRecords))
                  (filter (\<lambda>l. \<not> failing env options (subdomainQuery d l)) ?new)"
    by (simp only: filter_map o_def queryKey_sub)
  have tot: "int (length ?new)
          = int (length (filter (\<lambda>l. \<not> failing env options (subdomainQuery d l)) ?new))
            + int (length (filter (failing env options) (map (subdomainQuery d) ?new)))"
    by (simp only: filter_split_length flip: of_nat_add)
  have st: "runningChecks (step env options d s i) = int (length ?new)"
    "pending (step env options d s i) = map (\<lambda>l. (l @ ''.'' @ d, ''A'', SendRecords)) ?new"
    "issued (step env options d s i) = issued s @ map (subdomainQuery d) ?new"
    by (simp_all add: last(6))
  show ?thesis
    unfolding counted_def st pend using tot none ne by simp
qed

lemma run_counted:
  "structured (counted env options) env options (toASCII env domain)
     (run env options domain sched)"
  by (rule run_structured) (simp_all add: counted_after_ns counted_step)

lemma structured_later_query:
  assumes "structured Q env options d s" "(nm, ty) \<in> set (issued s)" "ty \<noteq> ''NS''"
  shows "phase1 d s \<and> Q s \<and> (nm, ty) \<in> set (tl (issued s))"
  using assms
proof (cases rule: structured_cases)
  case initial then show ?thesis using assms(2,3) by simp
next
  case ns_failed then show ?thesis using assms(2,3) by simp
next
  case ns_empty then show ?thesis using assms(2,3) by simp
next
  case (later records)
  then show ?thesis using assms(2,3) by (auto simp: phase1_def)
qed

lemma phase1_closed: "phase1 d s \<Longrightarrow> closed s \<longleftrightarrow> runningChecks s = 0"
  by (simp add: phase1_def)

lemma stuck_run:
  assumes "(nm, ty) \<in> set (issued (run env options domain sched))" "ty \<noteq> ''NS''"
    and "getDnsRecords env nm ty (resolver options) = Inl e"
  shows "\<not> closed (run env options domain sched) \<and> 0 < runningChecks (run env options domain sched)"
proof -
  let ?s = "run env options domain sched"
  have s: "phase1 (toASCII env domain) ?s" "counted env options ?s" "(nm, ty) \<in> set (tl (issued ?s))"
    using structured_later_query [OF run_counted assms(1,2)] by simp_all
  have "(nm, ty) \<in> set (filter (failing env options) (tl (issued ?s)))"
    using s(3) assms(3) by (simp add: failing_Inl)
  then have "0 < length (filter (failing env options) (tl (issued ?s)))"
    by (rule length_pos_if_in_set)
  then have "0 < runningChecks ?s"
    using s(2) unfolding counted_def by linarith
  then show ?thesis using phase1_closed [OF s(1)] by simp
qed

lemma complete_run:
  assumes ok: "\<forall>k\<in>set (issued (run env options domain sched)). \<not> failing env options k"
    and idle: "pending (run env options domain sched) = []"
  shows "closed (run env options domain sched)"
  using run_counted [of env options domain sched]
proof (cases rule: structured_cases)
  case initial then show ?thesis using idle by simp
next
  case (ns_failed e)
  then show ?thesis using ok by (simp add: failing_def)
next
  case ns_empty then show ?thesis by simp
next
  case (later records)
  have "filter (failing env options) (tl (issued (run env options domain sched))) = []"
  proof -
    have "\<not> failing env options k" if "k \<in> set (tl (issued (run env options domain sched)))" for k
    proof -
      have "issued (run env options domain sched) \<noteq> []"
        using that by auto
      then have "k \<in> set (issued (run env options domain sched))"
        using that by (rule list.set_sel(2))
      then show ?thesis using ok by blast
    qed
    then show ?thesis by (simp add: filter_empty_conv)
  qed
  then have "runningChecks (run env options domain sched) = 0"
    using later(2) idle unfolding counted_def by simp
  then show ?thesis using phase1_closed [OF later(1)] by simp
qed

lemmas run_eval = run_def step_def settle_def callback_def getDnsRecords_def start_def issue_def
  rootQueries_def sendRecords_def reqDone_def sendRecord_def nsRecord_def mxRecord_def
  txtRecord_def spfToken_def addSubdomain_def recordHash_def recordLine_def decimalString_def
  utf8Encode_def string_of_nat_small string_of_nat_big digit_char_def startsWith_def endsWith_def
  Let_def

text \<open>
  C1, as amended. A query that rejects is not absorbed. If any query other than the
  bootstrap rejects, its callback never runs and the counter is never decremented for it:
  the counter stays positive, the stream is never closed and \<open>getAllDnsRecords\<close> never
  resolves. When every issued query resolves, the stream is closed, and the promise of
  \<open>getAllDnsRecords\<close> settled, as soon as no query is in flight.
\<close>

theorem rejected_query_blocks_completion:
  "((\<exists>nm ty e. (nm, ty) \<in> set (issued (run env options domain sched)) \<and> ty \<noteq> ''NS''
        \<and> getDnsRecords env nm ty (resolver options) = Inl e)
      \<longrightarrow> \<not> closed (run env options domain sched)
          \<and> 0 < runningChecks (run env options domain sched)
          \<and> (\<forall>records. getAllDnsRecords env domain options sched \<noteq> Resolved records))
   \<and> ((\<forall>k\<in>set (issued (run env options domain sched)).
          \<exists>records. getDnsRecords env (fst k) (snd k) (resolver options) = Inr records)
        \<and> pending (run env options domain sched) = []
      \<longrightarrow> closed (run env options domain sched)
          \<and> getAllDnsRecords env domain options sched \<noteq> Pending)"
proof (intro conjI impI)
  assume "\<exists>nm ty e. (nm, ty) \<in> set (issued (run env options domain sched)) \<and> ty \<noteq> ''NS''
        \<and> getDnsRecords env nm ty (resolver options) = Inl e"
  then obtain nm ty e where "(nm, ty) \<in> set (issued (run env options domain sched))"
    "ty \<noteq> ''NS''" "getDnsRecords env nm ty (resolver options) = Inl e"
    by blast
  then have stuck: "\<not> closed (run env options domain sched)
                    \<and> 0 < runningChecks (run env options domain sched)"
    by (rule stuck_run)
  then show "\<not> closed (run env options domain sched)"
    and "0 < runningChecks (run env options domain sched)"
    by simp_all
  show "\<forall>records. getAllDnsRecords env domain options sched \<noteq> Resolved records"
    using stuck by (simp add: getAllDnsRecords_run split: sum.splits)
next
  assume h: "(\<forall>k\<in>set (issued (run env options domain sched)).
          \<exists>records. getDnsRecords env (fst k) (snd k) (resolver options) = Inr records)
        \<and> pending (run env options domain sched) = []"
  then have "\<forall>k\<in>set (issued (run env options domain sched)). \<not> failing env options k"
    by (auto simp: failing_def)
  then show c: "closed (run env options domain sched)"
    using h by (simp add: complete_run)
  show "getAllDnsRecords env domain options sched \<noteq> Pending"
    using c by (simp add: getAllDnsRecords_run split: sum.splits)
qed

lemma outage_after_ns:
  "issued (run plainEnv (optionsWith outageResolver) ''example.com'' [0])
     = [(''example.com'', ''NS''), (''example.com'', ''SOA''), (''example.com'', ''A''),
        (''example.com'', ''AAAA''), (''example.com'', ''MX''), (''example.com'', ''TXT'')]"
  by (simp add: run_eval plainEnv_def optionsWith_def outageResolver_def exampleResolver_def)

lemma empty_after_ns:
  "issued (run plainEnv (optionsWith emptyResolver) ''example.com'' [0]) = [(''example.com'', ''NS'')]
   \<and> pending (run plainEnv (optionsWith emptyResolver) ''example.com'' [0]) = []"
  by (simp add: run_eval plainEnv_def optionsWith_def emptyResolver_def)

theorem rejected_query_blocks_completion_witness:
  "((''example.com'', ''SOA'')
       \<in> set (issued (run plainEnv (optionsWith outageResolver) ''example.com'' [0]))
     \<and> ''SOA'' \<noteq> ''NS''
     \<and> getDnsRecords plainEnv ''example.com'' ''SOA'' (resolver (optionsWith outageResolver))
         = Inl (ResolverFailure ''503 Service Unavailable'')
     \<and> \<not> closed (run plainEnv (optionsWith outageResolver) ''example.com'' [0])
     \<and> 0 < runningChecks (run plainEnv (optionsWith outageResolver) ''example.com'' [0]))
   \<and> (issued (run plainEnv (optionsWith emptyResolver) ''example.com'' [0])
         = [(''example.com'', ''NS'')]
       \<and> getDnsRecords plainEnv ''example.com'' ''NS'' (resolver (optionsWith emptyResolver))
           = Inr []
       \<and> pending (run plainEnv (optionsWith emptyResolver) ''example.com'' [0]) = []
       \<and> closed (run plainEnv (optionsWith emptyResolver) ''example.com'' [0]))"
proof -
  have a: "(''example.com'', ''SOA'')
       \<in> set (issued (run plainEnv (optionsWith outageResolver) ''example.com'' [0]))"
    by (simp add: outage_after_ns)
  have b: "getDnsRecords plainEnv ''example.com'' ''SOA'' (resolver (optionsWith outageResolver))
         = Inl (ResolverFailure ''503 Service Unavailable'')"
    by (simp add: getDnsRecords_def plainEnv_def optionsWith_def outageResolver_def)
  have i: "issued (run plainEnv (optionsWith emptyResolver) ''example.com'' [0])
             = [(''example.com'', ''NS'')]"
    by (simp add: empty_after_ns)
  have n: "getDnsRecords plainEnv ''example.com'' ''NS'' (resolver (optionsWith emptyResolver))
             = Inr []"
    by (simp add: getDnsRecords_def plainEnv_def optionsWith_def emptyResolver_def)
  have c: "\<forall>k\<in>set (issued (run plainEnv (optionsWith emptyResolver) ''example.com'' [0])).
          \<exists>records. getDnsRecords plainEnv (fst k) (snd k) (resolver (optionsWith emptyResolver))
                       = Inr records"
    by (simp add: i n)
  have d: "pending (run plainEnv (optionsWith emptyResolver) ''example.com'' [0]) = []"
    by (simp add: empty_after_ns)
  have "\<not> closed (run plainEnv (optionsWith outageResolver) ''example.com'' [0])
     \<and> 0 < runningChecks (run plainEnv (optionsWith outageResolver) ''example.com'' [0])"
    using rejected_query_blocks_completion
            [of plainEnv "optionsWith outageResolver" "''example.com''" "[0]"] a b
    by blast
  moreover have "closed (run plainEnv (optionsWith emptyResolver) ''example.com'' [0])"
    using rejected_query_blocks_completion
            [of plainEnv "optionsWith emptyResolver" "''example.com''" "[0]"] c d
    by blast
  ultimately show ?thesis using a b i n d by simp
qed

text \<open>
  C1 as stated fails: while the SOA query rejects, all six queries settle, none is left in
  flight, the counter stays at one and \<open>getAllDnsRecords\<close> is still pending.
\<close>

theorem rejected_query_counterexample:
  "getDnsRecords plainEnv ''example.com'' ''SOA'' (resolver (optionsWith outageResolver))
     = Inl (ResolverFailure ''503 Service Unavailable'')
   \<and> pending (run plainEnv (optionsWith outageResolver) ''example.com'' [0, 0, 0, 0, 0, 0]) = []
   \<and> runningChecks (run plainEnv (optionsWith outageResolver) ''example.com'' [0, 0, 0, 0, 0, 0]) = 1
   \<and> \<not> closed (run plainEnv (optionsWith outageResolver) ''example.com'' [0, 0, 0, 0, 0, 0])
   \<and> getAllDnsRecords plainEnv ''example.com'' (optionsWith outageResolver) [0, 0, 0, 0, 0, 0]
       = Pending"
proof -
  have s: "run plainEnv (optionsWith outageResolver) ''example.com'' [0, 0, 0, 0, 0, 0] =
     \<lparr>recordsHashes =
        [''example.com-NS-ns1.example.com.'', ''example.com-NS-ns2.example.net.'',
         ''example.com-A-93.184.216.34'', ''example.com-MX-10 mail.example.com.'',
         ''example.com-TXT-v=spf1 a:mail.example.com ~all''],
      subdomainsChecked = [], subdomainsExtra = [''ns1'', ''mail''], runningChecks = 1,
      written =
        map (\<lambda>r. encode plainEnv (recordLine plainEnv r))
          [\<lparr>name = ''example.com'', type = ''NS'', ttl = Num 3600, data = ''ns1.example.com.''\<rparr>,
           \<lparr>name = ''example.com'', type = ''NS'', ttl = Num 3600, data = ''ns2.example.net.''\<rparr>,
           \<lparr>name = ''example.com'', type = ''A'', ttl = Num 300, data = ''93.184.216.34''\<rparr>,
           \<lparr>name = ''example.com'', type = ''MX'', ttl = Num 300, data = ''10 mail.example.com.''\<rparr>,
           \<lparr>name = ''example.com'', type = ''TXT'', ttl = Num 300,
              data = ''v=spf1 a:mail.example.com ~all''\<rparr>],
      closed = False, pending = [],
      issued =
        [(''example.com'', ''NS''), (''example.com'', ''SOA''), (''example.com'', ''A''),
         (''example.com'', ''AAAA''), (''example.com'', ''MX''), (''example.com'', ''TXT'')],
      accepted =
          [\<lparr>name = ''example.com'', type = ''NS'', ttl = Num 3600, data = ''ns1.example.com.''\<rparr>,
           \<lparr>name = ''example.com'', type = ''NS'', ttl = Num 3600, data = ''ns2.example.net.''\<rparr>,
           \<lparr>name = ''example.com'', type = ''A'', ttl = Num 300, data = ''93.184.216.34''\<rparr>,
           \<lparr>name = ''example.com'', type = ''MX'', ttl = Num 300, data = ''10 mail.example.com.''\<rparr>,
           \<lparr>name = ''example.com'', type = ''TXT'', ttl = Num 300,
              data = ''v=spf1 a:mail.example.com ~all''\<rparr>]\<rparr>"
    by (simp add: run_eval plainEnv_def optionsWith_def outageResolver_def exampleResolver_def)
  have b: "getDnsRecords plainEnv ''example.com'' ''SOA'' (resolver (optionsWith outageResolver))
         = Inl (ResolverFailure ''503 Service Unavailable'')"
    by (simp add: getDnsRecords_def plainEnv_def optionsWith_def outageResolver_def)
  have r: "readChunks plainEnv
             (written (run plainEnv (optionsWith outageResolver) ''example.com''
                         [0, 0, 0, 0, 0, 0]))
            \<noteq> Inl e" for e
    unfolding s by (simp add: wire_eval plainEnv_def)
  have dom: "isDomain plainEnv ''example.com''"
    by (simp add: plainEnv_def)
  have cl: "\<not> closed (run plainEnv (optionsWith outageResolver) ''example.com''
                         [0, 0, 0, 0, 0, 0])"
    by (simp add: s)
  have "getAllDnsRecords plainEnv ''example.com'' (optionsWith outageResolver) [0, 0, 0, 0, 0, 0]
          = Pending"
    using r dom cl by (simp add: getAllDnsRecords_run split: sum.splits)
  then show ?thesis using b by (simp add: s)
qed

section \<open>The deduplicating sink\<close>



















section \<open>The example scenario\<close>

lemmas wildcard_eval_run = detectWildcardRecords_def wildcardStep_def countRecord_def lookupCount_def
  groupKey_def addressTypes_def Let_def defaultPercent_def

lemma example_state:
  "run exampleEnv defaultOptions ''example.com'' exampleSchedule =
     \<lparr>recordsHashes = map recordHash exampleAccepted,
      subdomainsChecked =
        [''www'', ''mail'', ''ftp'', ''blog'', ''shop'', ''api'', ''dev'', ''vpn'', ''ns1''],
      subdomainsExtra = [], runningChecks = 0,
      written = map (\<lambda>r. encode exampleEnv (recordLine exampleEnv r)) exampleAccepted,
      closed = True, pending = [],
      issued =
        [(''example.com'', ''NS''), (''example.com'', ''SOA''), (''example.com'', ''A''),
         (''example.com'', ''AAAA''), (''example.com'', ''MX''), (''example.com'', ''TXT''),
         (''www.example.com'', ''A''), (''mail.example.com'', ''A''), (''ftp.example.com'', ''A''),
         (''blog.example.com'', ''A''), (''shop.example.com'', ''A''), (''api.example.com'', ''A''),
         (''dev.example.com'', ''A''), (''vpn.example.com'', ''A''), (''ns1.example.com'', ''A'')],
      accepted = exampleAccepted\<rparr>"
  by (simp add: run_eval exampleEnv_def defaultOptions_def exampleResolver_def exampleAccepted_def
        exampleSchedule_def)

lemma example_run:
  "written (run exampleEnv defaultOptions ''example.com'' exampleSchedule)
     = map (\<lambda>r. encode exampleEnv (recordLine exampleEnv r)) exampleAccepted
   \<and> closed (run exampleEnv defaultOptions ''example.com'' exampleSchedule)
   \<and> issued (run exampleEnv defaultOptions ''example.com'' exampleSchedule)
      = [(''example.com'', ''NS''), (''example.com'', ''SOA''), (''example.com'', ''A''),
         (''example.com'', ''AAAA''), (''example.com'', ''MX''), (''example.com'', ''TXT''),
         (''www.example.com'', ''A''), (''mail.example.com'', ''A''), (''ftp.example.com'', ''A''),
         (''blog.example.com'', ''A''), (''shop.example.com'', ''A''), (''api.example.com'', ''A''),
         (''dev.example.com'', ''A''), (''vpn.example.com'', ''A''), (''ns1.example.com'', ''A'')]"
  by (simp only: example_state run_state.simps)

lemma example_platform:
  "numberToString exampleEnv = decimalString" "toNumber exampleEnv = decimalNumber"
  "encode exampleEnv = utf8Encode" "decode exampleEnv = utf8Decode"
  "numberToString plainEnv = decimalString" "toNumber plainEnv = decimalNumber"
  "encode plainEnv = utf8Encode" "decode plainEnv = utf8Decode"
  by (simp_all add: exampleEnv_def plainEnv_def)

lemma line_roundtrip:
  assumes "name r \<noteq> []" "hd (name r) \<noteq> CHR 0xEF"
  shows "utf8Decode (utf8Encode (recordLine env r)) = recordLine env r"
proof -
  obtain c cs where n: "name r = c # cs" "c \<noteq> CHR 0xEF"
    using assms by (cases "name r") simp_all
  then have "\<not> startsWith (recordLine env r) byteOrderMark"
    by (simp add: recordLine_def startsWith_def byteOrderMark_def)
  then show ?thesis by (rule utf8_roundtrip)
qed


lemma example_result:
  "getAllDnsRecords exampleEnv ''example.com'' defaultOptions exampleSchedule
     = Resolved exampleAccepted"
proof -
  have "\<forall>r\<in>set exampleAccepted. TAB \<notin> set (name r) \<and> TAB \<notin> set (type r) \<and> TAB \<notin> set (data r)
          \<and> name r \<noteq> [] \<and> hd (name r) \<noteq> CHR 0xEF"
    by (simp add: exampleAccepted_def)
  then have "\<forall>r\<in>set exampleAccepted. TAB \<notin> set (name r) \<and> TAB \<notin> set (type r)
          \<and> TAB \<notin> set (data r) \<and> TAB \<notin> set (numberToString exampleEnv (ttl r))
          \<and> decode exampleEnv (encode exampleEnv (recordLine exampleEnv r))
              = recordLine exampleEnv r"
    by (simp add: example_platform decimalString_no_TAB line_roundtrip)
  then have "readChunks exampleEnv
               (map (\<lambda>r. encode exampleEnv (recordLine exampleEnv r)) exampleAccepted)
             = Inr (map (\<lambda>r. r\<lparr>ttl := toNumber exampleEnv (numberToString exampleEnv (ttl r))\<rparr>)
                      exampleAccepted)"
    by (rule readChunks_lines)
  moreover have "\<forall>r\<in>set exampleAccepted. ttl r \<noteq> MinusZero"
    by (simp add: exampleAccepted_def)
  then have "map (\<lambda>r. r\<lparr>ttl := toNumber exampleEnv (numberToString exampleEnv (ttl r))\<rparr>)
               exampleAccepted = exampleAccepted"
    by (intro map_idI) (simp add: example_platform decimalNumber_decimalString)
  ultimately have "readChunks exampleEnv
               (map (\<lambda>r. encode exampleEnv (recordLine exampleEnv r)) exampleAccepted)
             = Inr exampleAccepted"
    by simp
  moreover have "detectWildcardRecords (subdomainsRecords exampleEnv) ''example.com''
                   exampleAccepted defaultPercent = exampleAccepted"
    by (simp add: wildcard_eval_run exampleEnv_def exampleAccepted_def)
  moreover have "isDomain exampleEnv ''example.com''"
    by (simp add: exampleEnv_def)
  ultimately show ?thesis
    using example_run by (simp add: getAllDnsRecords_run)
qed

text \<open>
  C3. The claim is that every record emitted on the stream or returned by
  \<open>getAllDnsRecords\<close> is named the domain or has a name ending with a dot and the domain.
  The code does not ensure it: \<open>sendRecord\<close> accepts a record when
  \<open>record.name.endsWith(domain)\<close>, a test on characters without the label boundary that
  \<open>addSubdomain\<close> in the same closure requires (\<open>endsWith('.' + domain)\<close>). In the scenario
  \<open>www.example.com\<close> is an alias of \<open>cdn.notexample.com\<close>; the address record of that host
  is written to the stream and returned by \<open>getAllDnsRecords\<close>, although its name is not
  the domain and does not end with a dot and the domain, and although \<open>addSubdomain\<close>
  proposes nothing for that host.
\<close>

theorem foreign_name_accepted:
  "getAllDnsRecords exampleEnv ''example.com'' defaultOptions exampleSchedule
     = Resolved exampleAccepted
   \<and> \<lparr>name = ''cdn.notexample.com'', type = ''A'', ttl = Num 60, data = ''198.51.100.7''\<rparr>
       \<in> set exampleAccepted
   \<and> encode exampleEnv
       (recordLine exampleEnv
          \<lparr>name = ''cdn.notexample.com'', type = ''A'', ttl = Num 60, data = ''198.51.100.7''\<rparr>)
       \<in> set (written (run exampleEnv defaultOptions ''example.com'' exampleSchedule))
   \<and> ''cdn.notexample.com'' \<noteq> ''example.com''
   \<and> \<not> endsWith ''cdn.notexample.com'' (''.'' @ ''example.com'')
   \<and> endsWith ''cdn.notexample.com'' ''example.com''
   \<and> addSubdomain ''example.com'' ''cdn.notexample.com.'' [] = []"
proof -
  have m: "\<lparr>name = ''cdn.notexample.com'', type = ''A'', ttl = Num 60, data = ''198.51.100.7''\<rparr>
       \<in> set exampleAccepted"
    by (simp add: exampleAccepted_def)
  then have w: "encode exampleEnv
       (recordLine exampleEnv
          \<lparr>name = ''cdn.notexample.com'', type = ''A'', ttl = Num 60, data = ''198.51.100.7''\<rparr>)
       \<in> set (written (run exampleEnv defaultOptions ''example.com'' exampleSchedule))"
    using example_run by (simp only: set_map) (rule imageI)
  have e: "''cdn.notexample.com'' \<noteq> ''example.com''
   \<and> \<not> endsWith ''cdn.notexample.com'' (''.'' @ ''example.com'')
   \<and> endsWith ''cdn.notexample.com'' ''example.com''
   \<and> addSubdomain ''example.com'' ''cdn.notexample.com.'' [] = []"
    by (simp add: endsWith_def addSubdomain_def)
  show ?thesis
    using example_result m w e by simp
qed



text \<open>
  C6 as stated fails: when the caller's extra labels name \<open>www\<close>, which the static list
  holds as well, the queue holds \<open>www\<close> twice, at the start of the run and still after the
  name-server answer has been handled.
\<close>

theorem repeated_seed_counterexample:
  "subdomainsExtra (run exampleEnv repeatedSeedOptions ''example.com'' [])
     = [''www'', ''www'', ''mail'', ''ftp'', ''blog'', ''shop'', ''api'', ''dev'', ''vpn'']
   \<and> subdomainsExtra (run exampleEnv repeatedSeedOptions ''example.com'' [0])
       = [''www'', ''www'', ''mail'', ''ftp'', ''blog'', ''shop'', ''api'', ''dev'', ''vpn'', ''ns1'']
   \<and> count_list (subdomainsExtra (run exampleEnv repeatedSeedOptions ''example.com'' [0])) ''www''
       = 2"
proof -
  have a: "subdomainsExtra (run exampleEnv repeatedSeedOptions ''example.com'' [])
     = [''www'', ''www'', ''mail'', ''ftp'', ''blog'', ''shop'', ''api'', ''dev'', ''vpn'']"
    by (simp add: run_def exampleEnv_def repeatedSeedOptions_def)
  have b: "subdomainsExtra (run exampleEnv repeatedSeedOptions ''example.com'' [0])
       = [''www'', ''www'', ''mail'', ''ftp'', ''blog'', ''shop'', ''api'', ''dev'', ''vpn'', ''ns1'']"
    by (simp add: run_eval exampleEnv_def repeatedSeedOptions_def exampleResolver_def)
  show ?thesis
    by (simp add: a b)
qed

section \<open>Inference from the mail exchanger\<close>
















end
